theory Spec2Isabelle
  imports Complex_Main "HOL-Library.AList" "HOL-Library.List_Lexorder"
    "HOL-Library.Product_Lexorder"
begin

unbundle bit_operations_syntax

section \<open>Values shared by the whole backend\<close>

text \<open>
  A Python \<open>str\<close> is a sequence of Unicode code points and \<open>bytes\<close> a sequence of octets;
  both are lists of integers here (what \<open>ord\<close> and indexing return). \<open>str\<close> turns an
  ASCII literal of the source into that representation.
\<close>

type_synonym pystr = "int list"
type_synonym bytes = "int list"

definition str :: "string \<Rightarrow> pystr" where
  "str s = map of_char s"

text \<open>
  Every \<open>raise\<close> of the source, and every exception of a library call that the source
  does not catch, is a value of \<open>exn\<close>; a function that can raise returns \<open>exn + 'a\<close>.
  \<open>HTTPException\<close> carries the status code and the detail text.
\<close>

datatype exn =
    HTTPException int pystr
  | TypeError
  | ValueError
  | KeyError pystr
  | OverflowError
  | UnicodeEncodeError
  | JSONDecodeError

section \<open>Python floats\<close>

text \<open>
  \<open>calc_amount\<close> computes in Python floats, which are IEEE 754 binary64 numbers. A finite
  float is modelled by the rational number it denotes; \<open>fl\<close> rounds a rational to the
  nearest binary64 value, ties to even, with 53 significant bits and the subnormal
  spacing \<open>2 powi (-1074)\<close> at the bottom. The sign of zero is not kept: no operation
  used here depends on it.
\<close>

function bit_length :: "int \<Rightarrow> nat" where
  "bit_length n = (if n \<le> 0 then 0 else Suc (bit_length (n div 2)))"
  by pat_completeness auto
termination
  by (relation "measure nat") auto

declare bit_length.simps [simp del]

text \<open>\<open>ilog2 x\<close> is the exponent \<open>e\<close> with \<open>2 powi e \<le> \<bar>x\<bar> < 2 powi (e + 1)\<close>, for \<open>x \<noteq> 0\<close>.\<close>

definition ilog2 :: "rat \<Rightarrow> int" where
  "ilog2 x =
     (if 1 \<le> \<bar>x\<bar> then int (bit_length \<lfloor>\<bar>x\<bar>\<rfloor>) - 1
      else - int (bit_length (\<lceil>1 / \<bar>x\<bar>\<rceil> - 1)))"

definition round_half_even :: "rat \<Rightarrow> int" where
  "round_half_even x =
     (let f = \<lfloor>x\<rfloor>; d = x - of_int f
      in if d < 1 / 2 then f
         else if 1 / 2 < d then f + 1
         else if even f then f else f + 1)"

definition fl :: "rat \<Rightarrow> rat" where
  "fl x =
     (if x = 0 then 0
      else let q = 2 powi (max (ilog2 x - 52) (- 1074))
           in of_int (round_half_even (x / q)) * q)"

datatype pyfloat = Finite rat | PosInf | NegInf | NaN

text \<open>A rounded result of magnitude \<open>2 ^ 1024\<close> or more is an infinity.\<close>

definition overflow :: "rat \<Rightarrow> pyfloat" where
  "overflow r =
     (if 2 ^ 1024 \<le> r then PosInf else if r \<le> - (2 ^ 1024) then NegInf else Finite r)"

text \<open>
  The conversion of an \<open>int\<close> operand to float (done by \<open>float * int\<close>): correctly
  rounded, and \<open>OverflowError\<close> when the integer is too large for a float.
\<close>

definition float_of_int :: "int \<Rightarrow> exn + pyfloat" where
  "float_of_int n =
     (let r = fl (of_int n) in if 2 ^ 1024 \<le> \<bar>r\<bar> then Inl OverflowError else Inr (Finite r))"

fun fmul :: "pyfloat \<Rightarrow> pyfloat \<Rightarrow> pyfloat" where
  "fmul (Finite a) (Finite b) = overflow (fl (a * b))"
| "fmul NaN _ = NaN"
| "fmul _ NaN = NaN"
| "fmul (Finite a) PosInf = (if a = 0 then NaN else if 0 < a then PosInf else NegInf)"
| "fmul (Finite a) NegInf = (if a = 0 then NaN else if 0 < a then NegInf else PosInf)"
| "fmul PosInf (Finite b) = (if b = 0 then NaN else if 0 < b then PosInf else NegInf)"
| "fmul NegInf (Finite b) = (if b = 0 then NaN else if 0 < b then NegInf else PosInf)"
| "fmul PosInf PosInf = PosInf"
| "fmul PosInf NegInf = NegInf"
| "fmul NegInf PosInf = NegInf"
| "fmul NegInf NegInf = PosInf"

fun fsub :: "pyfloat \<Rightarrow> pyfloat \<Rightarrow> pyfloat" where
  "fsub (Finite a) (Finite b) = overflow (fl (a - b))"
| "fsub NaN _ = NaN"
| "fsub _ NaN = NaN"
| "fsub (Finite a) PosInf = NegInf"
| "fsub (Finite a) NegInf = PosInf"
| "fsub PosInf (Finite b) = PosInf"
| "fsub NegInf (Finite b) = NegInf"
| "fsub PosInf PosInf = NaN"
| "fsub PosInf NegInf = PosInf"
| "fsub NegInf PosInf = NegInf"
| "fsub NegInf NegInf = NaN"

definition fmul_int :: "pyfloat \<Rightarrow> int \<Rightarrow> exn + pyfloat" where
  "fmul_int x n = (case float_of_int n of Inl e \<Rightarrow> Inl e | Inr y \<Rightarrow> Inr (fmul x y))"

text \<open>
  \<open>round(x)\<close> of a float, without \<open>ndigits\<close>: the nearest integer, ties to even;
  \<open>OverflowError\<close> for an infinity and \<open>ValueError\<close> for a NaN. The \<open>int(...)\<close> around it
  is the identity on the integer it returns.
\<close>

fun py_round :: "pyfloat \<Rightarrow> exn + int" where
  "py_round (Finite r) = Inr (round_half_even r)"
| "py_round NaN = Inl ValueError"
| "py_round _ = Inl OverflowError"

section \<open>Pricing\<close>

definition BASE_PRICE_30 :: int where
  "BASE_PRICE_30 = 75"

text \<open>The float literals \<open>0.00\<close>, \<open>0.05\<close> and \<open>0.10\<close> are the roundings of the decimals.\<close>

definition DISCOUNT_BY_DAYS :: "int \<rightharpoonup> pyfloat" where
  "DISCOUNT_BY_DAYS =
     [30 \<mapsto> Finite (fl 0), 60 \<mapsto> Finite (fl (5 / 100)), 90 \<mapsto> Finite (fl (10 / 100))]"

text \<open>
  \<open>calc_amount\<close>, lines 34-38. \<open>BASE_PRICE_30 / 30.0\<close> divides two floats that hold the
  integers exactly, by a divisor that is not zero, so \<open>per_day\<close> is the rounded quotient.
  \<open>per_day * days * seats\<close> converts each integer operand to float first.
\<close>

definition calc_amount :: "int \<Rightarrow> int \<Rightarrow> exn + int" where
  "calc_amount days seats =
     (let per_day = Finite (fl (of_int BASE_PRICE_30 / 30)) in
      case fmul_int per_day days of Inl e \<Rightarrow> Inl e | Inr pd \<Rightarrow>
      case fmul_int pd seats of Inl e \<Rightarrow> Inl e | Inr subtotal \<Rightarrow>
      let disc = (case DISCOUNT_BY_DAYS days of None \<Rightarrow> Finite (fl 0) | Some d \<Rightarrow> d)
      in py_round (fmul subtotal (fsub (Finite (fl 1)) disc)))"

text \<open>
  The price as the specification words it, in exact arithmetic: the discount table
  \<open>{30: 0%, 60: 5%, 90: 10%}\<close>, 0% elsewhere, and
  \<open>round((75/30) * days * seats * (1 - discount))\<close> with ties to even.
\<close>

definition discount :: "int \<Rightarrow> rat" where
  "discount days = (if days = 60 then 5 / 100 else if days = 90 then 10 / 100 else 0)"

definition price_spec :: "int \<Rightarrow> int \<Rightarrow> int" where
  "price_spec days seats =
     round_half_even ((75 / 30) * of_int days * of_int seats * (1 - discount days))"

section \<open>The relational store\<close>

text \<open>
  The two tables of \<open>vpn_bot.db\<close>. \<open>users\<close> has the primary key \<open>user_id\<close>, so the table
  is a partial map from the key to the rest of the row. \<open>payments\<close> is the list of its
  rows in insertion order. Nullable TEXT columns are options, and both tables are taken
  to exist (the \<open>CREATE TABLE IF NOT EXISTS\<close> statements change nothing then).

  \<open>days_left\<close> is the one column the program computes on, with \<open>+\<close> and \<open>-\<close> inside SQL.
  An SQLite integer has 64 bits, and an addition or subtraction of two integers that
  leaves that range is done again in REAL (binary64) arithmetic; the column then holds
  a REAL. So a value of \<open>days_left\<close> is a \<open>sqlnum\<close>: an integer or a REAL. The other INTEGER
  columns are only ever written from a bound parameter and are integers here.
\<close>

datatype sqlnum = Integer int | Real pyfloat

text \<open>
  The integers that SQLite stores. The \<open>sqlite3\<close> module raises \<open>OverflowError\<close> when a
  Python \<open>int\<close> outside this range is bound to a \<open>?\<close>, before the statement runs.
\<close>

definition int64 :: "int \<Rightarrow> bool" where
  "int64 n \<longleftrightarrow> - (2 ^ 63) \<le> n \<and> n < 2 ^ 63"

text \<open>
  REAL arithmetic: the integer operand is converted to the nearest binary64 value, and
  the sum is rounded (the difference is \<open>fsub\<close>).
\<close>

definition to_real :: "int \<Rightarrow> pyfloat" where
  "to_real n = Finite (fl (of_int n))"

fun fadd :: "pyfloat \<Rightarrow> pyfloat \<Rightarrow> pyfloat" where
  "fadd (Finite a) (Finite b) = overflow (fl (a + b))"
| "fadd NaN _ = NaN"
| "fadd _ NaN = NaN"
| "fadd (Finite a) PosInf = PosInf"
| "fadd (Finite a) NegInf = NegInf"
| "fadd PosInf (Finite b) = PosInf"
| "fadd NegInf (Finite b) = NegInf"
| "fadd PosInf PosInf = PosInf"
| "fadd PosInf NegInf = NaN"
| "fadd NegInf PosInf = NaN"
| "fadd NegInf NegInf = NegInf"

text \<open>
  A REAL written to a column of INTEGER affinity is stored as an integer when it is a
  whole number strictly between the least and the greatest 64-bit integer, and as the
  REAL it is otherwise.
\<close>

fun integer_affinity :: "pyfloat \<Rightarrow> sqlnum" where
  "integer_affinity (Finite r) =
     (if of_int \<lfloor>r\<rfloor> = r \<and> - (2 ^ 63) < \<lfloor>r\<rfloor> \<and> \<lfloor>r\<rfloor> < 2 ^ 63 - 1
      then Integer \<lfloor>r\<rfloor> else Real (Finite r))"
| "integer_affinity x = Real x"

text \<open>
  \<open>MAX(0, COALESCE(days_left, 0))\<close>: the column is \<open>NOT NULL\<close>, so \<open>COALESCE\<close> returns it
  (a NaN is SQLite's NULL, which \<open>COALESCE\<close> replaces by 0); \<open>MAX\<close> returns the integer 0
  unless the balance is greater, and then the balance as it is stored.
\<close>

fun clamped :: "sqlnum \<Rightarrow> sqlnum" where
  "clamped (Integer n) = Integer (max 0 n)"
| "clamped (Real (Finite r)) = (if 0 < r then Real (Finite r) else Integer 0)"
| "clamped (Real PosInf) = Real PosInf"
| "clamped (Real NegInf) = Integer 0"
| "clamped (Real NaN) = Integer 0"

text \<open>
  \<open>x + ?\<close> and \<open>x - ?\<close> with an integer bound to \<open>?\<close>, as stored in \<open>days_left\<close>: integer
  arithmetic when \<open>x\<close> is an integer and the result has 64 bits, REAL arithmetic
  otherwise.
\<close>

fun sql_add :: "sqlnum \<Rightarrow> int \<Rightarrow> sqlnum" where
  "sql_add (Integer a) d =
     (if int64 (a + d) then Integer (a + d)
      else integer_affinity (fadd (to_real a) (to_real d)))"
| "sql_add (Real x) d = integer_affinity (fadd x (to_real d))"

fun sql_sub :: "sqlnum \<Rightarrow> int \<Rightarrow> sqlnum" where
  "sql_sub (Integer a) d =
     (if int64 (a - d) then Integer (a - d)
      else integer_affinity (fsub (to_real a) (to_real d)))"
| "sql_sub (Real x) d = integer_affinity (fsub x (to_real d))"

record user_row =
  username :: "pystr option"
  days_left :: sqlnum
  reminder_sent3 :: int
  user_comment :: "pystr option"
  seats_default :: int
  expired_since :: "pystr option"
  is_admin :: int
  user_created_at :: "pystr option"
  updated_at :: "pystr option"

record payment_row =
  payment_id :: int
  pay_user_id :: int
  pay_days :: int
  pay_seats :: int
  pay_amount :: int
  status :: pystr
  comment :: "pystr option"
  created_at :: "pystr option"

record store =
  users :: "int \<rightharpoonup> user_row"
  payments :: "payment_row list"

text \<open>\<open>UPDATE users SET ... WHERE user_id=?\<close>: a row that is absent stays absent.\<close>

definition update_user :: "(user_row \<Rightarrow> user_row) \<Rightarrow> int \<Rightarrow> store \<Rightarrow> store" where
  "update_user f uid s =
     (case users s uid of
        None \<Rightarrow> s
      | Some r \<Rightarrow> s\<lparr>users := (users s)(uid \<mapsto> f r)\<rparr>)"

text \<open>
  \<open>get_or_create_user\<close>: the upsert of lines 58-61. \<open>now\<close> is the value of
  \<open>datetime('now')\<close>. The inserted row takes the column defaults of the schema.
\<close>

definition get_or_create_user :: "pystr \<Rightarrow> store \<Rightarrow> int \<Rightarrow> pystr option \<Rightarrow> store" where
  "get_or_create_user now s uid uname =
     (case users s uid of
        None \<Rightarrow>
          s\<lparr>users := (users s)(uid \<mapsto>
             \<lparr>username = uname, days_left = Integer 0, reminder_sent3 = 0, user_comment = None,
              seats_default = 1, expired_since = None, is_admin = 0,
              user_created_at = Some now, updated_at = Some now\<rparr>)\<rparr>
      | Some r \<Rightarrow>
          s\<lparr>users := (users s)(uid \<mapsto> r\<lparr>username := uname, updated_at := Some now\<rparr>)\<rparr>)"

definition get_user :: "store \<Rightarrow> int \<Rightarrow> user_row option" where
  "get_user s uid = users s uid"

text \<open>
  \<open>create_payment\<close>: the new row gets the next AUTOINCREMENT key (one more than the
  largest key so far, 1 in an empty table) and the default status \<open>'pending'\<close>; the
  function returns \<open>lastrowid\<close>.
\<close>

definition next_payment_id :: "payment_row list \<Rightarrow> int" where
  "next_payment_id ps = fold max (map payment_id ps) 0 + 1"

definition create_payment ::
  "pystr \<Rightarrow> store \<Rightarrow> int \<Rightarrow> int \<Rightarrow> int \<Rightarrow> int \<Rightarrow> pystr option \<Rightarrow> int \<times> store" where
  "create_payment now s uid days seats amount cmt =
     (let pid = next_payment_id (payments s) in
      (pid, s\<lparr>payments := payments s @
          [\<lparr>payment_id = pid, pay_user_id = uid, pay_days = days, pay_seats = seats,
            pay_amount = amount, status = str ''pending'', comment = cmt,
            created_at = Some now\<rparr>]\<rparr>))"

text \<open>
  \<open>SELECT ... WHERE user_id=? AND status='pending' ORDER BY payment_id DESC LIMIT 1\<close>:
  the matching row with the greatest key, if any.
\<close>

fun greatest_payment :: "payment_row \<Rightarrow> payment_row list \<Rightarrow> payment_row" where
  "greatest_payment r [] = r"
| "greatest_payment r (p # ps) =
     greatest_payment (if payment_id r < payment_id p then p else r) ps"

definition last_pending :: "payment_row list \<Rightarrow> int \<Rightarrow> payment_row option" where
  "last_pending ps uid =
     (case filter (\<lambda>p. pay_user_id p = uid \<and> status p = str ''pending'') ps of
        [] \<Rightarrow> None
      | r # rs \<Rightarrow> Some (greatest_payment r rs))"

text \<open>\<open>UPDATE payments SET status='paid' WHERE payment_id=?\<close>.\<close>

definition mark_paid :: "int \<Rightarrow> payment_row list \<Rightarrow> payment_row list" where
  "mark_paid pid ps =
     map (\<lambda>p. if payment_id p = pid then p\<lparr>status := str ''paid''\<rparr> else p) ps"

definition confirm_last_payment :: "store \<Rightarrow> int \<Rightarrow> bool \<times> store" where
  "confirm_last_payment s uid =
     (case last_pending (payments s) uid of
        None \<Rightarrow> (False, s)
      | Some r \<Rightarrow>
          (True,
           update_user (\<lambda>u. u\<lparr>days_left := sql_add (clamped (days_left u)) (pay_days r)\<rparr>) uid
             (s\<lparr>payments := mark_paid (payment_id r) (payments s)\<rparr>)))"

text \<open>
  \<open>add_days\<close>, \<open>sub_days\<close> and \<open>set_days\<close>, lines 111-121. \<open>days\<close> and \<open>uid\<close> come from the
  request (\<open>days:int\<close> of the body, \<open>user_id:int\<close> of the path) and are any Python \<open>int\<close>;
  binding one that has more than 64 bits raises \<open>OverflowError\<close>, and nothing is written.
\<close>

definition add_days :: "store \<Rightarrow> int \<Rightarrow> int \<Rightarrow> exn + store" where
  "add_days s uid days =
     (if int64 days \<and> int64 uid
      then Inr (update_user (\<lambda>u. u\<lparr>days_left := sql_add (clamped (days_left u)) days\<rparr>) uid s)
      else Inl OverflowError)"

definition sub_days :: "store \<Rightarrow> int \<Rightarrow> int \<Rightarrow> exn + store" where
  "sub_days s uid days =
     (if int64 days \<and> int64 uid
      then Inr (update_user (\<lambda>u. u\<lparr>days_left := sql_sub (clamped (days_left u)) days\<rparr>) uid s)
      else Inl OverflowError)"

definition set_days :: "store \<Rightarrow> int \<Rightarrow> int \<Rightarrow> exn + store" where
  "set_days s uid days =
     (if int64 days \<and> int64 uid
      then Inr (update_user (\<lambda>u. u\<lparr>days_left := Integer days\<rparr>) uid s)
      else Inl OverflowError)"

section \<open>The administrator gate\<close>

text \<open>The identities written into \<open>ensure_admin\<close> (and into \<open>/api/me\<close>).\<close>

definition bootstrap_admins :: "int set" where
  "bootstrap_admins = {251385778}"

definition forbidden :: exn where
  "forbidden = HTTPException 403 (str ''forbidden'')"

text \<open>
  \<open>row and (row["is_admin"]==1 or uid in {...})\<close>: a missing row is \<open>None\<close>, which is
  falsy, so the second operand is read only for a row that exists.
\<close>

definition ensure_admin :: "store \<Rightarrow> int \<Rightarrow> exn + unit" where
  "ensure_admin s uid =
     (case get_user s uid of
        None \<Rightarrow> Inl forbidden
      | Some row \<Rightarrow>
          if is_admin row = 1 \<or> uid \<in> bootstrap_admins then Inr () else Inl forbidden)"

section \<open>The query-string parser of urllib\<close>

text \<open>\<open>s.split(sep)\<close> for a separator of one character.\<close>

fun split_acc :: "int \<Rightarrow> pystr \<Rightarrow> pystr \<Rightarrow> pystr list" where
  "split_acc sep acc [] = [rev acc]"
| "split_acc sep acc (c # cs) =
     (if c = sep then rev acc # split_acc sep [] cs else split_acc sep (c # acc) cs)"

definition split :: "int \<Rightarrow> pystr \<Rightarrow> pystr list" where
  "split sep s = split_acc sep [] s"

text \<open>
  \<open>unquote_to_bytes\<close> on a run of ASCII characters: \<open>%XY\<close> with two hexadecimal digits
  becomes the byte; a \<open>%\<close> that no two hexadecimal digits follow stays as it is.
\<close>

definition is_hex :: "int \<Rightarrow> bool" where
  "is_hex c \<longleftrightarrow> (48 \<le> c \<and> c \<le> 57) \<or> (65 \<le> c \<and> c \<le> 70) \<or> (97 \<le> c \<and> c \<le> 102)"

definition hex_val :: "int \<Rightarrow> int" where
  "hex_val c = (if c \<le> 57 then c - 48 else if c \<le> 70 then c - 55 else c - 87)"

fun unquote_to_bytes :: "pystr \<Rightarrow> bytes" where
  "unquote_to_bytes (p # a # b # r) =
     (if p = 37 \<and> is_hex a \<and> is_hex b then (16 * hex_val a + hex_val b) # unquote_to_bytes r
      else p # unquote_to_bytes (a # b # r))"
| "unquote_to_bytes (p # r) = p # unquote_to_bytes r"
| "unquote_to_bytes [] = []"

text \<open>
  \<open>bytes.decode('utf-8', 'replace')\<close>: a well-formed sequence gives its code point.
  A byte that cannot start a sequence gives U+FFFD; so does the begun part of a
  sequence in front of a byte that cannot continue it, and a sequence cut off by the
  end of the input.
\<close>

definition cont :: "int \<Rightarrow> bool" where
  "cont b \<longleftrightarrow> 128 \<le> b \<and> b \<le> 191"

text \<open>The first continuation byte is restricted after the lead bytes E0, ED, F0, F4.\<close>

definition second_ok :: "int \<Rightarrow> int \<Rightarrow> bool" where
  "second_ok lead b \<longleftrightarrow>
     cont b \<and> \<not> (lead = 224 \<and> b < 160) \<and> \<not> (lead = 237 \<and> 160 \<le> b) \<and>
     \<not> (lead = 240 \<and> b < 144) \<and> \<not> (lead = 244 \<and> 144 \<le> b)"

fun utf8_decode :: "bytes \<Rightarrow> pystr" where
  "utf8_decode [] = []"
| "utf8_decode (b0 # r) =
     (if b0 < 128 then b0 # utf8_decode r
      else if 194 \<le> b0 \<and> b0 \<le> 223 then
        (case r of
           [] \<Rightarrow> [65533]
         | b1 # r1 \<Rightarrow>
             if cont b1 then ((b0 - 192) * 64 + (b1 - 128)) # utf8_decode r1
             else 65533 # utf8_decode r)
      else if 224 \<le> b0 \<and> b0 \<le> 239 then
        (case r of
           [] \<Rightarrow> [65533]
         | b1 # r1 \<Rightarrow>
             if \<not> second_ok b0 b1 then 65533 # utf8_decode r
             else (case r1 of
                     [] \<Rightarrow> [65533]
                   | b2 # r2 \<Rightarrow>
                       if cont b2
                       then ((b0 - 224) * 4096 + (b1 - 128) * 64 + (b2 - 128)) # utf8_decode r2
                       else 65533 # utf8_decode r1))
      else if 240 \<le> b0 \<and> b0 \<le> 244 then
        (case r of
           [] \<Rightarrow> [65533]
         | b1 # r1 \<Rightarrow>
             if \<not> second_ok b0 b1 then 65533 # utf8_decode r
             else (case r1 of
                     [] \<Rightarrow> [65533]
                   | b2 # r2 \<Rightarrow>
                       if \<not> cont b2 then 65533 # utf8_decode r1
                       else (case r2 of
                               [] \<Rightarrow> [65533]
                             | b3 # r3 \<Rightarrow>
                                 if cont b3
                                 then ((b0 - 240) * 262144 + (b1 - 128) * 4096 +
                                       (b2 - 128) * 64 + (b3 - 128)) # utf8_decode r3
                                 else 65533 # utf8_decode r2)))
      else 65533 # utf8_decode r)"

text \<open>
  \<open>unquote\<close>: a string without \<open>%\<close> is returned as it is; otherwise each maximal run of
  ASCII characters is percent-decoded and decoded as UTF-8, and the other characters
  are kept.
\<close>

fun ascii_runs :: "pystr \<Rightarrow> pystr list" where
  "ascii_runs [] = []"
| "ascii_runs (c # cs) =
     (case ascii_runs cs of
        (d # ds) # rs \<Rightarrow> if (c < 128) = (d < 128) then (c # d # ds) # rs else [c] # (d # ds) # rs
      | _ \<Rightarrow> [[c]])"

definition unquote :: "pystr \<Rightarrow> pystr" where
  "unquote s =
     (if 37 \<notin> set s then s
      else concat (map (\<lambda>run. if list_all (\<lambda>c. c < 128) run
                                then utf8_decode (unquote_to_bytes run) else run)
                       (ascii_runs s)))"

text \<open>
  \<open>parse_qsl(qs, keep_blank_values=True)\<close>: the fields are separated by \<open>&\<close>, an empty
  field is skipped, a field is split at its first \<open>=\<close> (a field without one has the
  empty value), \<open>+\<close> becomes a space, and name and value are unquoted.
\<close>

definition plus_to_space :: "pystr \<Rightarrow> pystr" where
  "plus_to_space s = map (\<lambda>c. if c = 43 then 32 else c) s"

definition parse_field :: "pystr \<Rightarrow> (pystr \<times> pystr) list" where
  "parse_field name_value =
     (if name_value = [] then []
      else let nv = (if 61 \<in> set name_value
                     then (takeWhile (\<lambda>c. c \<noteq> 61) name_value,
                           tl (dropWhile (\<lambda>c. c \<noteq> 61) name_value))
                     else (name_value, []))
           in [(unquote (plus_to_space (fst nv)), unquote (plus_to_space (snd nv)))])"

definition parse_qsl :: "pystr \<Rightarrow> (pystr \<times> pystr) list" where
  "parse_qsl qs = concat (map parse_field (split 38 qs))"

section \<open>Dictionaries, the check string, encoding\<close>

text \<open>
  \<open>dict(pairs)\<close>: a later pair replaces the value of an earlier one with the same key,
  in the place of the earlier one. \<open>data.pop('hash', None)\<close> is the lookup \<open>map_of\<close>
  followed by \<open>AList.delete\<close>.
\<close>

definition dict_of :: "(pystr \<times> pystr) list \<Rightarrow> (pystr \<times> pystr) list" where
  "dict_of pairs = foldl (\<lambda>d kv. AList.update (fst kv) (snd kv) d) [] pairs"

fun join :: "pystr \<Rightarrow> pystr list \<Rightarrow> pystr" where
  "join sep [] = []"
| "join sep [x] = x"
| "join sep (x # y # r) = x @ sep @ join sep (y # r)"

text \<open>
  Line 160: the \<open>key=value\<close> lines of \<open>sorted(data.items())\<close>, joined by the newline
  character (code 10). The pairs are sorted in the lexicographic order of Python tuples
  and strings (by code point).
\<close>

definition data_check_string :: "(pystr \<times> pystr) list \<Rightarrow> pystr" where
  "data_check_string data = join [10] (map (\<lambda>kv. fst kv @ [61] @ snd kv) (sort data))"

text \<open>
  \<open>s.encode()\<close>: UTF-8; a surrogate code point raises \<open>UnicodeEncodeError\<close>. An integer
  that is no code point at all cannot occur in a \<open>str\<close> and is given the same error.
\<close>

definition encode_char :: "int \<Rightarrow> exn + bytes" where
  "encode_char c =
     (if c < 0 then Inl UnicodeEncodeError
      else if c < 128 then Inr [c]
      else if c < 2048 then Inr [192 + c div 64, 128 + c mod 64]
      else if c < 65536 then
        (if 55296 \<le> c \<and> c \<le> 57343 then Inl UnicodeEncodeError
         else Inr [224 + c div 4096, 128 + (c div 64) mod 64, 128 + c mod 64])
      else if c < 1114112 then
        Inr [240 + c div 262144, 128 + (c div 4096) mod 64, 128 + (c div 64) mod 64, 128 + c mod 64]
      else Inl UnicodeEncodeError)"

fun encode :: "pystr \<Rightarrow> exn + bytes" where
  "encode [] = Inr []"
| "encode (c # cs) =
     (case encode_char c of
        Inl e \<Rightarrow> Inl e
      | Inr b \<Rightarrow> (case encode cs of Inl e \<Rightarrow> Inl e | Inr bs \<Rightarrow> Inr (b @ bs)))"

section \<open>SHA-256 and HMAC\<close>

text \<open>
  SHA-256 (FIPS 180-4) on 32-bit words held as integers below \<open>2 ^ 32\<close>, and HMAC
  (RFC 2104) with the block size 64; \<open>hmac_sha256 key msg\<close> is
  \<open>hmac.new(key, msg, hashlib.sha256).digest()\<close>.
\<close>

definition w32 :: "int \<Rightarrow> int" where
  "w32 x = x mod 4294967296"

definition rotr :: "nat \<Rightarrow> int \<Rightarrow> int" where
  "rotr n x = x div 2 ^ n + (x mod 2 ^ n) * 2 ^ (32 - n)"

definition shr :: "nat \<Rightarrow> int \<Rightarrow> int" where
  "shr n x = x div 2 ^ n"

definition sha_k :: "int list" where
  "sha_k = [
   1116352408, 1899447441, 3049323471, 3921009573, 961987163, 1508970993, 2453635748, 2870763221,
   3624381080, 310598401, 607225278, 1426881987, 1925078388, 2162078206, 2614888103, 3248222580,
   3835390401, 4022224774, 264347078, 604807628, 770255983, 1249150122, 1555081692, 1996064986,
   2554220882, 2821834349, 2952996808, 3210313671, 3336571891, 3584528711, 113926993, 338241895,
   666307205, 773529912, 1294757372, 1396182291, 1695183700, 1986661051, 2177026350, 2456956037,
   2730485921, 2820302411, 3259730800, 3345764771, 3516065817, 3600352804, 4094571909, 275423344,
   430227734, 506948616, 659060556, 883997877, 958139571, 1322822218, 1537002063, 1747873779,
   1955562222, 2024104815, 2227730452, 2361852424, 2428436474, 2756734187, 3204031479, 3329325298]"

definition sha_h0 :: "int list" where
  "sha_h0 = [1779033703, 3144134277, 1013904242, 2773480762,
             1359893119, 2600822924, 528734635, 1541459225]"

definition ssig0 :: "int \<Rightarrow> int" where
  "ssig0 x = rotr 7 x XOR rotr 18 x XOR shr 3 x"

definition ssig1 :: "int \<Rightarrow> int" where
  "ssig1 x = rotr 17 x XOR rotr 19 x XOR shr 10 x"

definition bsig0 :: "int \<Rightarrow> int" where
  "bsig0 x = rotr 2 x XOR rotr 13 x XOR rotr 22 x"

definition bsig1 :: "int \<Rightarrow> int" where
  "bsig1 x = rotr 6 x XOR rotr 11 x XOR rotr 25 x"

definition ch :: "int \<Rightarrow> int \<Rightarrow> int \<Rightarrow> int" where
  "ch e f g = g XOR (e AND (f XOR g))"

definition maj :: "int \<Rightarrow> int \<Rightarrow> int \<Rightarrow> int" where
  "maj a b c = (a AND b) XOR (a AND c) XOR (b AND c)"

text \<open>The message schedule, newest word first.\<close>

fun schedule :: "nat \<Rightarrow> int list \<Rightarrow> int list" where
  "schedule 0 ws = ws"
| "schedule (Suc n) ws =
     schedule n (w32 (ssig1 (ws ! 1) + ws ! 6 + ssig0 (ws ! 14) + ws ! 15) # ws)"

type_synonym sha_state = "int \<times> int \<times> int \<times> int \<times> int \<times> int \<times> int \<times> int"

definition round_step :: "sha_state \<Rightarrow> int \<times> int \<Rightarrow> sha_state" where
  "round_step st kw =
     (case st of (a, b, c, d, e, f, g, h) \<Rightarrow>
        let t1 = h + bsig1 e + ch e f g + fst kw + snd kw; t2 = bsig0 a + maj a b c
        in (w32 (t1 + t2), a, b, c, w32 (d + t1), e, f, g))"

definition st_list :: "sha_state \<Rightarrow> int list" where
  "st_list st = (case st of (a, b, c, d, e, f, g, h) \<Rightarrow> [a, b, c, d, e, f, g, h])"

definition list_st :: "int list \<Rightarrow> sha_state" where
  "list_st xs = (xs ! 0, xs ! 1, xs ! 2, xs ! 3, xs ! 4, xs ! 5, xs ! 6, xs ! 7)"

fun be32 :: "bytes \<Rightarrow> int list" where
  "be32 (a # b # c # d # r) = (((a * 256 + b) * 256 + c) * 256 + d) # be32 r"
| "be32 _ = []"

definition compress :: "int list \<Rightarrow> bytes \<Rightarrow> int list" where
  "compress st blk =
     map w32 (map2 (+) st
       (st_list (foldl round_step (list_st st)
          (zip sha_k (rev (schedule 48 (rev (be32 blk))))))))"

definition be_bytes :: "nat \<Rightarrow> int \<Rightarrow> bytes" where
  "be_bytes n x = map (\<lambda>i. (x div 256 ^ i) mod 256) (rev [0..<n])"

definition pad :: "bytes \<Rightarrow> bytes" where
  "pad m = m @ [128] @ replicate ((119 - length m mod 64) mod 64) 0 @
           be_bytes 8 (8 * int (length m))"

fun blocks :: "nat \<Rightarrow> int list \<Rightarrow> bytes \<Rightarrow> int list" where
  "blocks 0 st m = st"
| "blocks (Suc n) st m = blocks n (compress st (take 64 m)) (drop 64 m)"

definition sha256 :: "bytes \<Rightarrow> bytes" where
  "sha256 m = (let p = pad m in concat (map (be_bytes 4) (blocks (length p div 64) sha_h0 p)))"

definition hmac_sha256 :: "bytes \<Rightarrow> bytes \<Rightarrow> bytes" where
  "hmac_sha256 key msg =
     (let k0 = (if 64 < length key then sha256 key else key);
          k = k0 @ replicate (64 - length k0) 0
      in sha256 (map (\<lambda>b. b XOR 92) k @ sha256 (map (\<lambda>b. b XOR 54) k @ msg)))"

text \<open>\<open>hexdigest\<close>: two lower-case hexadecimal digits per byte.\<close>

definition hex_digit :: "int \<Rightarrow> int" where
  "hex_digit d = (if d < 10 then 48 + d else 87 + d)"

definition hexdigest :: "bytes \<Rightarrow> pystr" where
  "hexdigest bs = concat (map (\<lambda>b. [hex_digit (b div 16), hex_digit (b mod 16)]) bs)"

text \<open>
  \<open>hmac.compare_digest\<close> on two \<open>str\<close> arguments: it raises \<open>TypeError\<close> unless both
  are ASCII, and otherwise tells whether they are equal.
\<close>

definition is_ascii :: "pystr \<Rightarrow> bool" where
  "is_ascii s = list_all (\<lambda>c. c < 128) s"

definition compare_digest :: "pystr \<Rightarrow> pystr \<Rightarrow> exn + bool" where
  "compare_digest a b = (if is_ascii a \<and> is_ascii b then Inr (a = b) else Inl TypeError)"

section \<open>Verifying the signed payload\<close>

text \<open>
  The values \<open>json.loads\<close> returns. The parser itself is a parameter of
  \<open>verify_init_data\<close>: a function from the text to the value or the exception.
\<close>

datatype json =
    JNull | JBool bool | JInt int | JFloat pyfloat | JStr pystr
  | JArray "json list" | JObject "(pystr \<times> json) list"

text \<open>
  \<open>verify_init_data\<close>, lines 152-166. \<open>BOT_TOKEN\<close> is read from the environment and is
  a parameter too. \<open>not hash_recv\<close> holds for a missing and for an empty \<open>hash\<close>.
\<close>

definition verify_init_data :: "(pystr \<Rightarrow> exn + json) \<Rightarrow> pystr \<Rightarrow> pystr \<Rightarrow> exn + json" where
  "verify_init_data json_loads BOT_TOKEN init_data =
     (if init_data = [] then Inl (HTTPException 401 (str ''no initData''))
      else
        let data0 = dict_of (parse_qsl init_data);
            hash_recv = map_of data0 (str ''hash'');
            data = AList.delete (str ''hash'') data0
        in case hash_recv of
             None \<Rightarrow> Inl (HTTPException 401 (str ''no hash''))
           | Some h \<Rightarrow>
               if h = [] then Inl (HTTPException 401 (str ''no hash''))
               else
                 let dcs = data_check_string data in
                 case encode BOT_TOKEN of
                   Inl e \<Rightarrow> Inl e
                 | Inr token \<Rightarrow>
                     let secret_key = hmac_sha256 (str ''WebAppData'') token in
                     case encode dcs of
                       Inl e \<Rightarrow> Inl e
                     | Inr msg \<Rightarrow>
                         let calc_hash = hexdigest (hmac_sha256 secret_key msg) in
                         case compare_digest calc_hash h of
                           Inl e \<Rightarrow> Inl e
                         | Inr same \<Rightarrow>
                             if \<not> same then Inl (HTTPException 401 (str ''bad signature''))
                             else json_loads
                                    (case map_of data (str ''user'') of
                                       None \<Rightarrow> str ''{}''
                                     | Some u \<Rightarrow> if u = [] then str ''{}'' else u))"

text \<open>The source's name for the hex signature of lines 161-162.\<close>

definition calc_hash :: "bytes \<Rightarrow> bytes \<Rightarrow> pystr" where
  "calc_hash token msg = hexdigest (hmac_sha256 (hmac_sha256 (str ''WebAppData'') token) msg)"

text \<open>
  \<open>u["id"]\<close>: a missing key of a dict raises \<open>KeyError\<close>; a value that is no dict
  cannot be subscripted by a string.
\<close>

definition getitem :: "json \<Rightarrow> pystr \<Rightarrow> exn + json" where
  "getitem u k =
     (case u of
        JObject kvs \<Rightarrow> (case map_of kvs k of None \<Rightarrow> Inl (KeyError k) | Some v \<Rightarrow> Inr v)
      | _ \<Rightarrow> Inl TypeError)"

text \<open>
  The first statement of the routes \<open>me\<close>, \<open>payment_create\<close>, \<open>payments\<close>, \<open>profile\<close> and of
  every admin route, up to the read of the identity's id:
  \<open>u = verify_init_data(x_init); ... u["id"]\<close>.
\<close>

definition read_id :: "(pystr \<Rightarrow> exn + json) \<Rightarrow> pystr \<Rightarrow> pystr \<Rightarrow> exn + json" where
  "read_id json_loads BOT_TOKEN x_init =
     (case verify_init_data json_loads BOT_TOKEN x_init of
        Inl e \<Rightarrow> Inl e
      | Inr u \<Rightarrow> getitem u (str ''id''))"

section \<open>Sample rows, stores and payloads\<close>

text \<open>A user row with the schema's defaults but for the balance and the admin flag.\<close>

definition sample_user :: "int \<Rightarrow> int \<Rightarrow> user_row" where
  "sample_user balance adm =
     \<lparr>username = None, days_left = Integer balance, reminder_sent3 = 0, user_comment = None,
      seats_default = 1, expired_since = None, is_admin = adm,
      user_created_at = None, updated_at = None\<rparr>"

definition one_user_store :: "int \<Rightarrow> user_row \<Rightarrow> store" where
  "one_user_store uid r = \<lparr>users = [uid \<mapsto> r], payments = []\<rparr>"

text \<open>
  The store after \<open>create_payment(7, 30, 1, 75, None)\<close> on empty tables: the route
  \<open>payment_create\<close> calls \<open>create_payment\<close> without \<open>get_or_create_user\<close>, so the payment of
  an identity that never called \<open>/api/me\<close> has no row in \<open>users\<close>.
\<close>

definition orphan_payment_store :: store where
  "orphan_payment_store =
     snd (create_payment (str ''t0'') \<lparr>users = Map.empty, payments = []\<rparr> 7 30 1 75 None)"

text \<open>
  A payload signed with the token \<open>PASTE_YOUR_TOKEN_HERE\<close> (the default of line 15):
  the fields \<open>user = {"id":42}\<close> and \<open>auth_date = 1\<close>, and the hexadecimal HMAC of their
  check string. \<open>tampered_init_data\<close> differs from it in the last character of the hash.
\<close>

definition sample_token :: pystr where
  "sample_token = str ''PASTE_YOUR_TOKEN_HERE''"

definition sample_user_text :: pystr where
  "sample_user_text = str ''{'' @ [34] @ str ''id'' @ [34] @ str '':42}''"

definition sample_hash :: pystr where
  "sample_hash = str ''fcd93bdb94c9bed73ced05db6b838d90218fa8d2506ff19842b8d1ec55894fb5''"

definition sample_init_data :: pystr where
  "sample_init_data =
     str ''user=%7B%22id%22%3A42%7D&auth_date=1&hash='' @ sample_hash"

definition tampered_init_data :: pystr where
  "tampered_init_data =
     str ''user=%7B%22id%22%3A42%7D&auth_date=1&hash='' @ sample_hash[63 := 52]"

definition sample_msg :: bytes where
  "sample_msg = str ''auth_date=1'' @ [10] @ str ''user='' @ sample_user_text"

definition sample_secret :: bytes where
  "sample_secret =
     [128, 196, 79, 209, 73, 215, 241, 30, 71, 228, 243, 19, 150, 177, 134, 232,
      66, 166, 17, 40, 242, 31, 43, 167, 248, 25, 255, 59, 155, 30, 169, 113]"

text \<open>A payload signed with the same token that has the field \<open>auth_date = 1\<close> only.\<close>

definition nouser_hash :: pystr where
  "nouser_hash = str ''9778611f67f56afce53cd6f1ababb7338325c02400a10d31f83c9d06a9771a05''"

definition nouser_init_data :: pystr where
  "nouser_init_data = str ''auth_date=1&hash='' @ nouser_hash"

text \<open>
  The values of \<open>json.loads\<close> on the two texts that occur in the samples; this table
  stands for the parser there and says nothing about any other text.
\<close>

definition json_loads_sample :: "pystr \<Rightarrow> exn + json" where
  "json_loads_sample s =
     (if s = str ''{}'' then Inr (JObject [])
      else if s = sample_user_text then Inr (JObject [(str ''id'', JInt 42)])
      else Inl JSONDecodeError)"

section \<open>Updating a row\<close>

lemma update_user_present:
  "users s uid = Some u \<Longrightarrow> users (update_user f uid s) uid = Some (f u)"
  by (simp add: update_user_def)

lemma update_user_other:
  "v \<noteq> uid \<Longrightarrow> users (update_user f uid s) v = users s v"
  by (simp add: update_user_def split: option.split)

lemma update_user_payments:
  "payments (update_user f uid s) = payments s"
  by (simp add: update_user_def split: option.split)

section \<open>Creating and refreshing a user\<close>

text \<open>
  C5. \<open>get_or_create_user\<close> inserts a row with \<open>days_left = 0\<close> when the key is new; for an
  existing row it replaces \<open>username\<close> and \<open>updated_at\<close> and nothing else, so \<open>days_left\<close>,
  \<open>is_admin\<close> and every other column keep their values, whatever the row and the
  username were. No other row and no payment changes.
\<close>

theorem get_or_create_user_frame:
  "(users s uid = None \<longrightarrow>
      (\<exists>r. users (get_or_create_user now s uid uname) uid = Some r \<and>
           days_left r = Integer 0 \<and> username r = uname \<and> is_admin r = 0)) \<and>
   (\<forall>r. users s uid = Some r \<longrightarrow>
      users (get_or_create_user now s uid uname) uid =
        Some (r\<lparr>username := uname, updated_at := Some now\<rparr>) \<and>
      map_option days_left (users (get_or_create_user now s uid uname) uid) = Some (days_left r) \<and>
      map_option is_admin (users (get_or_create_user now s uid uname) uid) = Some (is_admin r)) \<and>
   (\<forall>v. v \<noteq> uid \<longrightarrow> users (get_or_create_user now s uid uname) v = users s v) \<and>
   payments (get_or_create_user now s uid uname) = payments s"
  by (auto simp add: get_or_create_user_def split: option.split)

theorem get_or_create_user_frame_witness:
  "users (one_user_store 7 (sample_user 12 1)) 7 = Some (sample_user 12 1) \<and>
   users (get_or_create_user (str ''t1'') (one_user_store 7 (sample_user 12 1)) 7
       (Some (str ''new''))) 7 =
     Some ((sample_user 12 1)\<lparr>username := Some (str ''new''), updated_at := Some (str ''t1'')\<rparr>) \<and>
   users (one_user_store 7 (sample_user 12 1)) 8 = None \<and>
   map_option days_left
     (users (get_or_create_user (str ''t1'') (one_user_store 7 (sample_user 12 1)) 8 None) 8) =
     Some (Integer 0) \<and>
   users (get_or_create_user (str ''t1'') (one_user_store 7 (sample_user 12 1)) 8 None) 7 =
     Some (sample_user 12 1)"
  using get_or_create_user_frame [of "one_user_store 7 (sample_user 12 1)" 7 "str ''t1''"
      "Some (str ''new'')"]
    get_or_create_user_frame [of "one_user_store 7 (sample_user 12 1)" 8 "str ''t1''" None]
  by (auto simp add: one_user_store_def)

section \<open>Who passes the administrator gate\<close>

text \<open>
  C6. \<open>ensure_admin\<close> either passes or raises the 403 error, and it passes only if the
  stored row has \<open>is_admin = 1\<close> or the identity is in the bootstrap list; an identity of
  the bootstrap list that has a stored row passes whatever the row's \<open>is_admin\<close> is, also
  when it is 0.
\<close>

theorem ensure_admin_gate:
  "(ensure_admin s uid = Inr () \<or> ensure_admin s uid = Inl (HTTPException 403 (str ''forbidden''))) \<and>
   (ensure_admin s uid = Inr () \<longrightarrow>
      (\<exists>row. users s uid = Some row \<and> is_admin row = 1) \<or> uid \<in> bootstrap_admins) \<and>
   (\<forall>row. users s uid = Some row \<and> (is_admin row = 1 \<or> uid \<in> bootstrap_admins) \<longrightarrow>
      ensure_admin s uid = Inr ()) \<and>
   (\<forall>row. users s 251385778 = Some row \<and> is_admin row = 0 \<longrightarrow>
      ensure_admin s 251385778 = Inr ())"
  by (auto simp add: ensure_admin_def get_user_def forbidden_def bootstrap_admins_def
      split: option.split)

theorem ensure_admin_gate_witness:
  "users (one_user_store 251385778 (sample_user 0 0)) 251385778 = Some (sample_user 0 0) \<and>
   is_admin (sample_user 0 0) = 0 \<and>
   ensure_admin (one_user_store 251385778 (sample_user 0 0)) 251385778 = Inr ()"
  using ensure_admin_gate [of "one_user_store 251385778 (sample_user 0 0)" 251385778]
  by (simp add: one_user_store_def sample_user_def)

text \<open>
  C10. Without a stored row \<open>ensure_admin\<close> raises the 403 error, for an identity of the
  bootstrap list too; so whoever passes has a stored row.
\<close>

theorem ensure_admin_needs_row:
  "(users s uid = None \<longrightarrow> ensure_admin s uid = Inl (HTTPException 403 (str ''forbidden''))) \<and>
   (users s 251385778 = None \<longrightarrow>
      251385778 \<in> bootstrap_admins \<and>
      ensure_admin s 251385778 = Inl (HTTPException 403 (str ''forbidden''))) \<and>
   (ensure_admin s uid = Inr () \<longrightarrow> users s uid \<noteq> None)"
  by (auto simp add: ensure_admin_def get_user_def forbidden_def bootstrap_admins_def
      split: option.split)

theorem ensure_admin_needs_row_witness:
  "users (one_user_store 7 (sample_user 0 1)) 251385778 = None \<and>
   ensure_admin (one_user_store 7 (sample_user 0 1)) 251385778 =
     Inl (HTTPException 403 (str ''forbidden'')) \<and>
   ensure_admin (one_user_store 7 (sample_user 0 1)) 7 = Inr () \<and>
   users (one_user_store 7 (sample_user 0 1)) 7 \<noteq> None"
  using ensure_admin_needs_row [of "one_user_store 7 (sample_user 0 1)" 251385778]
    ensure_admin_needs_row [of "one_user_store 7 (sample_user 0 1)" 7]
  by (simp add: one_user_store_def sample_user_def ensure_admin_def get_user_def)

section \<open>Confirming the last payment\<close>

lemma greatest_payment_mem: "greatest_payment r ps \<in> set (r # ps)"
  by (induction ps arbitrary: r) auto

lemma greatest_payment_ge_init:
  "payment_id r \<le> payment_id (greatest_payment r ps)"
proof (induction ps arbitrary: r)
  case Nil
  show ?case by simp
next
  case (Cons q qs)
  let ?r' = "if payment_id r < payment_id q then q else r"
  have "payment_id r \<le> payment_id ?r'" by simp
  also have "\<dots> \<le> payment_id (greatest_payment ?r' qs)" by (rule Cons.IH)
  finally show ?case by simp
qed

lemma greatest_payment_ge:
  "p \<in> set (r # ps) \<Longrightarrow> payment_id p \<le> payment_id (greatest_payment r ps)"
proof (induction ps arbitrary: r)
  case Nil
  then show ?case by simp
next
  case (Cons q qs)
  let ?r' = "if payment_id r < payment_id q then q else r"
  have init: "payment_id ?r' \<le> payment_id (greatest_payment ?r' qs)"
    by (rule greatest_payment_ge_init)
  from Cons.prems consider "p = r" | "p = q" | "p \<in> set qs" by auto
  then show ?case
  proof cases
    case 1
    then show ?thesis using init by (simp split: if_splits)
  next
    case 2
    then show ?thesis using init by (simp split: if_splits)
  next
    case 3
    then have "p \<in> set (?r' # qs)" by simp
    then show ?thesis using Cons.IH [of ?r'] by simp
  qed
qed

lemma last_pending_None:
  "last_pending ps uid = None \<longleftrightarrow> (\<forall>p \<in> set ps. \<not> (pay_user_id p = uid \<and> status p = str ''pending''))"
proof -
  let ?f = "filter (\<lambda>p. pay_user_id p = uid \<and> status p = str ''pending'') ps"
  have "last_pending ps uid = None \<longleftrightarrow> ?f = []"
    by (simp add: last_pending_def split: list.split)
  then show ?thesis by (simp add: filter_empty_conv)
qed

lemma last_pending_Some:
  assumes "last_pending ps uid = Some r"
  shows "r \<in> set ps" "pay_user_id r = uid" "status r = str ''pending''"
    "\<And>p. p \<in> set ps \<Longrightarrow> pay_user_id p = uid \<Longrightarrow> status p = str ''pending'' \<Longrightarrow> payment_id p \<le> payment_id r"
proof -
  let ?f = "filter (\<lambda>p. pay_user_id p = uid \<and> status p = str ''pending'') ps"
  from assms obtain x xs where f: "?f = x # xs" and r: "r = greatest_payment x xs"
    by (auto simp add: last_pending_def split: list.splits)
  have "r \<in> set ?f" using greatest_payment_mem [of x xs] f r by simp
  then show "r \<in> set ps" "pay_user_id r = uid" "status r = str ''pending''" by auto
  fix p assume "p \<in> set ps" "pay_user_id p = uid" "status p = str ''pending''"
  then have "p \<in> set (x # xs)" using f [symmetric] by simp
  then show "payment_id p \<le> payment_id r" using greatest_payment_ge r by blast
qed

lemma mark_paid_distinct:
  assumes "distinct (map payment_id ps)" "r \<in> set ps"
  shows "mark_paid (payment_id r) ps = map (\<lambda>p. if p = r then p\<lparr>status := str ''paid''\<rparr> else p) ps"
  unfolding mark_paid_def
proof (rule map_cong [OF refl])
  fix p assume "p \<in> set ps"
  then have "payment_id p = payment_id r \<longleftrightarrow> p = r"
    using assms by (meson distinct_map inj_on_def)
  then show "(if payment_id p = payment_id r then p\<lparr>status := str ''paid''\<rparr> else p) =
     (if p = r then p\<lparr>status := str ''paid''\<rparr> else p)" by simp
qed


text \<open>
  What \<open>confirm_last_payment\<close> does on a ledger whose keys are distinct (\<open>payment_id\<close> is
  the primary key). Without a pending payment of the user nothing changes and the
  result is \<open>False\<close>.
\<close>

lemma confirm_last_payment_no_pending:
  assumes "\<forall>p \<in> set (payments s). \<not> (pay_user_id p = uid \<and> status p = str ''pending'')"
  shows "confirm_last_payment s uid = (False, s)"
proof -
  have "last_pending (payments s) uid = None"
    using assms by (simp add: last_pending_None)
  then show ?thesis by (simp add: confirm_last_payment_def)
qed

text \<open>
  With a pending payment, the pending payment \<open>r\<close> of the user with the greatest key
  becomes \<open>paid\<close>, every other payment stays as it is, the result is \<open>True\<close>, and the
  row of the user, where there is one, gets \<open>MAX(0, old) + days\<close> as the store computes
  it.
\<close>

lemma confirm_last_payment_pending:
  assumes d: "distinct (map payment_id (payments s))"
    and p0: "p0 \<in> set (payments s)" "pay_user_id p0 = uid" "status p0 = str ''pending''"
  shows "\<exists>r \<in> set (payments s).
           pay_user_id r = uid \<and> status r = str ''pending'' \<and>
           (\<forall>p \<in> set (payments s).
              pay_user_id p = uid \<and> status p = str ''pending'' \<longrightarrow> payment_id p \<le> payment_id r) \<and>
           fst (confirm_last_payment s uid) = True \<and>
           payments (snd (confirm_last_payment s uid)) =
             map (\<lambda>p. if p = r then p\<lparr>status := str ''paid''\<rparr> else p) (payments s) \<and>
           (\<forall>u. users s uid = Some u \<longrightarrow>
              users (snd (confirm_last_payment s uid)) uid =
                Some (u\<lparr>days_left := sql_add (clamped (days_left u)) (pay_days r)\<rparr>)) \<and>
           (\<forall>v. v \<noteq> uid \<longrightarrow> users (snd (confirm_last_payment s uid)) v = users s v)"
proof -
  have "last_pending (payments s) uid \<noteq> None"
    using p0 by (auto simp add: last_pending_None)
  then obtain r where r: "last_pending (payments s) uid = Some r" by auto
  note props = last_pending_Some [OF r]
  have paid: "mark_paid (payment_id r) (payments s) =
      map (\<lambda>p. if p = r then p\<lparr>status := str ''paid''\<rparr> else p) (payments s)"
    by (rule mark_paid_distinct [OF d props(1)])
  have "pay_user_id r = uid \<and> status r = str ''pending'' \<and>
           (\<forall>p \<in> set (payments s).
              pay_user_id p = uid \<and> status p = str ''pending'' \<longrightarrow> payment_id p \<le> payment_id r) \<and>
           fst (confirm_last_payment s uid) = True \<and>
           payments (snd (confirm_last_payment s uid)) =
             map (\<lambda>p. if p = r then p\<lparr>status := str ''paid''\<rparr> else p) (payments s) \<and>
           (\<forall>u. users s uid = Some u \<longrightarrow>
              users (snd (confirm_last_payment s uid)) uid =
                Some (u\<lparr>days_left := sql_add (clamped (days_left u)) (pay_days r)\<rparr>)) \<and>
           (\<forall>v. v \<noteq> uid \<longrightarrow> users (snd (confirm_last_payment s uid)) v = users s v)"
    using props(2,3,4) paid
    by (simp add: confirm_last_payment_def r update_user_payments update_user_present
        update_user_other)
  then show ?thesis using props(1) by blast
qed

text \<open>
  C3. The claim has \<open>confirm_last_payment\<close> credit the days of the payment it marks paid
  to the balance of the user, for every \<open>user_id\<close>. For a \<open>user_id\<close> with a pending
  payment and no row in \<open>users\<close> the code marks the payment paid and returns \<open>True\<close>, and
  no balance is credited: the \<open>UPDATE users\<close> matches no row. Evaluated on the store
  that \<open>create_payment\<close> builds for such an identity.
\<close>

theorem confirm_last_payment_without_user_row:
  "confirm_last_payment orphan_payment_store 7 =
     (True, \<lparr>users = Map.empty,
             payments = [\<lparr>payment_id = 1, pay_user_id = 7, pay_days = 30, pay_seats = 1,
                          pay_amount = 75, status = str ''paid'', comment = None,
                          created_at = Some (str ''t0'')\<rparr>]\<rparr>)"
  by (simp add: orphan_payment_store_def create_payment_def next_payment_id_def
      confirm_last_payment_def last_pending_def mark_paid_def update_user_def)

section \<open>Rounding to a float\<close>

lemma bit_length_pos: "0 < n \<Longrightarrow> 0 < bit_length n"
  by (subst bit_length.simps) simp

lemma bit_length_bounds:
  "0 < n \<Longrightarrow> 2 ^ (bit_length n - 1) \<le> n \<and> n < 2 ^ bit_length n"
proof (induction n rule: bit_length.induct)
  case (1 n)
  show ?case
  proof (cases "n = 1")
    case True
    have "bit_length 1 = 1"
      by (simp add: bit_length.simps)
    then show ?thesis using True by simp
  next
    case False
    with "1.prems" have pos: "0 < n div 2" by simp
    have ih: "2 ^ (bit_length (n div 2) - 1) \<le> n div 2 \<and> n div 2 < 2 ^ bit_length (n div 2)"
      using "1.IH" "1.prems" pos by simp
    have bl: "bit_length n = Suc (bit_length (n div 2))"
      using "1.prems" by (subst bit_length.simps) simp
    have bp: "0 < bit_length (n div 2)" using pos by (rule bit_length_pos)
    then obtain k where k: "bit_length (n div 2) = Suc k" by (cases "bit_length (n div 2)") auto
    have d1: "2 * (n div 2) \<le> n" by presburger
    have d2: "n < 2 * (n div 2) + 2" by presburger
    have lo: "2 * 2 ^ k \<le> n" using ih k d1 by simp
    have "n div 2 + 1 \<le> 2 * 2 ^ k" using ih k by simp
    then have hi: "n < 2 * 2 ^ Suc k" using d2 by simp
    show ?thesis using lo hi bl k by simp
  qed
qed

lemma powi_two_pos: "0 < (2::rat) powi e"
  by (simp add: zero_less_power_int)

lemma powi_two_mono: "a \<le> b \<Longrightarrow> (2::rat) powi a \<le> 2 powi b"
  by (rule power_int_increasing) simp_all

lemma powi_two_less_imp: "(2::rat) powi a < 2 powi b \<Longrightarrow> a < b"
  using powi_two_mono [of b a] by (cases "a < b") auto

text \<open>\<open>ilog2\<close> is the binary exponent.\<close>

lemma ilog2_bounds:
  assumes "x \<noteq> 0"
  shows "2 powi (ilog2 x) \<le> \<bar>x\<bar> \<and> \<bar>x\<bar> < 2 powi (ilog2 x + 1)"
proof (cases "1 \<le> \<bar>x\<bar>")
  case True
  let ?n = "\<lfloor>\<bar>x\<bar>\<rfloor>"
  have n: "0 < ?n" using True by simp
  have e: "ilog2 x = int (bit_length ?n) - 1" using True by (simp add: ilog2_def)
  from bit_length_bounds [OF n] have b: "2 ^ (bit_length ?n - 1) \<le> ?n" "?n < 2 ^ bit_length ?n"
    by auto
  have bp: "0 < bit_length ?n" using n by (rule bit_length_pos)
  have p1: "(2::rat) powi (int (bit_length ?n) - 1) = 2 ^ (bit_length ?n - 1)"
    using bp by (simp add: power_int_def nat_diff_distrib' of_nat_diff)
  have p2: "(2::rat) powi (int (bit_length ?n) - 1 + 1) = 2 ^ bit_length ?n"
    by (simp add: power_int_def)
  have "(of_int (2 ^ (bit_length ?n - 1)) :: rat) \<le> of_int ?n"
    using b(1) by (simp only: of_int_le_iff)
  also have "\<dots> \<le> \<bar>x\<bar>" by simp
  finally have lo: "(2::rat) ^ (bit_length ?n - 1) \<le> \<bar>x\<bar>" by simp
  have "?n + 1 \<le> 2 ^ bit_length ?n" using b(2) by simp
  then have "(of_int (?n + 1) :: rat) \<le> of_int (2 ^ bit_length ?n)"
    by (simp only: of_int_le_iff)
  moreover have "\<bar>x\<bar> < of_int (?n + 1)" by linarith
  ultimately have hi: "\<bar>x\<bar> < (2::rat) ^ bit_length ?n" by simp
  show ?thesis using lo hi by (simp only: e p1 p2 simp_thms)
next
  case False
  then have lt: "\<bar>x\<bar> < 1" by simp
  have xp: "0 < \<bar>x\<bar>" using assms by simp
  let ?y = "1 / \<bar>x\<bar>"
  let ?m = "\<lceil>?y\<rceil> - 1"
  have y1: "1 < ?y" using lt xp by simp
  then have m: "0 < ?m" by linarith
  have e: "ilog2 x = - int (bit_length ?m)" using False by (simp add: ilog2_def)
  from bit_length_bounds [OF m] have b: "2 ^ (bit_length ?m - 1) \<le> ?m" "?m < 2 ^ bit_length ?m"
    by auto
  have bp: "0 < bit_length ?m" using m by (rule bit_length_pos)
  have "\<lceil>?y\<rceil> \<le> 2 ^ bit_length ?m" using b(2) by simp
  then have "(of_int \<lceil>?y\<rceil> :: rat) \<le> of_int (2 ^ bit_length ?m)"
    by (simp only: of_int_le_iff)
  moreover have "?y \<le> of_int \<lceil>?y\<rceil>" by (rule le_of_int_ceiling)
  ultimately have "?y \<le> of_int (2 ^ bit_length ?m)" by (rule order_trans [rotated])
  then have yle: "?y \<le> 2 ^ bit_length ?m" by simp
  have "(of_int (2 ^ (bit_length ?m - 1)) :: rat) \<le> of_int ?m"
    using b(1) by (simp only: of_int_le_iff)
  moreover have "of_int ?m < ?y" by linarith
  ultimately have "(of_int (2 ^ (bit_length ?m - 1)) :: rat) < ?y" by (rule le_less_trans)
  then have ygt: "(2::rat) ^ (bit_length ?m - 1) < ?y" by simp
  have p1: "(2::rat) powi (- int (bit_length ?m)) = 1 / 2 ^ bit_length ?m"
    by (simp add: power_int_def field_simps)
  have p2: "(2::rat) powi (- int (bit_length ?m) + 1) = 1 / 2 ^ (bit_length ?m - 1)"
    using bp by (cases "bit_length ?m") (simp_all add: power_int_def field_simps)
  have lo: "1 / 2 ^ bit_length ?m \<le> \<bar>x\<bar>"
    using yle xp by (simp add: field_simps)
  have hi: "\<bar>x\<bar> < 1 / 2 ^ (bit_length ?m - 1)"
    using ygt xp by (simp add: field_simps)
  show ?thesis using lo hi by (simp only: e p1 p2 simp_thms)
qed

lemma ilog2_unique:
  assumes "2 powi e \<le> \<bar>x\<bar>" "\<bar>x\<bar> < 2 powi (e + 1)"
  shows "ilog2 x = e"
proof -
  have "0 < \<bar>x\<bar>" using assms(1) powi_two_pos [of e] by (rule less_le_trans [rotated])
  then have "x \<noteq> 0" by simp
  from ilog2_bounds [OF this]
  have b: "2 powi (ilog2 x) \<le> \<bar>x\<bar>" "\<bar>x\<bar> < 2 powi (ilog2 x + 1)" by auto
  have "(2::rat) powi e < 2 powi (ilog2 x + 1)" using assms(1) b(2) by simp
  then have "e < ilog2 x + 1" by (rule powi_two_less_imp)
  moreover have "(2::rat) powi (ilog2 x) < 2 powi (e + 1)" using assms(2) b(1) by simp
  then have "ilog2 x < e + 1" by (rule powi_two_less_imp)
  ultimately show ?thesis by simp
qed

lemma round_half_even_near:
  assumes "\<bar>x - of_int n\<bar> < 1 / 2"
  shows "round_half_even x = n"
proof (cases "of_int n \<le> x")
  case True
  then have "\<lfloor>x\<rfloor> = n" using assms by (intro floor_unique) auto
  then show ?thesis using assms True by (simp add: round_half_even_def Let_def)
next
  case False
  then have f: "\<lfloor>x\<rfloor> = n - 1" using assms by (intro floor_unique) auto
  have "1 / 2 < x - of_int (n - 1)" using assms False by simp
  then show ?thesis using f by (simp add: round_half_even_def Let_def)
qed

lemma round_half_even_of_int: "round_half_even (of_int n) = n"
  by (rule round_half_even_near) simp

lemma fl_zero: "fl 0 = 0"
  by (simp add: fl_def)

lemma powi_two_add: "(2::rat) powi (a + b) = 2 powi a * 2 powi b"
  by (rule power_int_add) simp

lemma powi_two_nat: "0 \<le> j \<Longrightarrow> (2::rat) powi j = 2 ^ nat j"
  by (simp add: power_int_def)

text \<open>
  A number with at most 53 significant bits, above the subnormal spacing, is a float:
  rounding leaves it as it is.
\<close>

lemma fl_exact:
  assumes x: "x = of_int m * 2 powi k" and m: "\<bar>m\<bar> < 2 ^ 53" and k: "- 1074 \<le> k"
  shows "fl x = x"
proof (cases "m = 0")
  case True
  then show ?thesis using x by (simp add: fl_zero)
next
  case False
  then have x0: "x \<noteq> 0" using x powi_two_pos [of k] by simp
  define T where "T = max (ilog2 x - 52) (- 1074)"
  from ilog2_bounds [OF x0] have lo: "2 powi (ilog2 x) \<le> \<bar>x\<bar>" by simp
  have "(of_int \<bar>m\<bar> :: rat) < of_int (2 ^ 53)" using m by (simp only: of_int_less_iff)
  then have "(of_int \<bar>m\<bar> :: rat) < 2 powi 53" by simp
  then have "of_int \<bar>m\<bar> * 2 powi k < 2 powi 53 * (2::rat) powi k"
    using powi_two_pos [of k] by (simp only: mult_less_cancel_right_pos)
  moreover have "\<bar>x\<bar> = of_int \<bar>m\<bar> * 2 powi k"
    using x powi_two_pos [of k] by (simp add: abs_mult)
  ultimately have "\<bar>x\<bar> < 2 powi (53 + k)" by (simp add: powi_two_add)
  with lo have "(2::rat) powi (ilog2 x) < 2 powi (53 + k)" by simp
  then have "ilog2 x < 53 + k" by (rule powi_two_less_imp)
  then have Tk: "T \<le> k" using k by (simp add: T_def)
  define j where "j = nat (k - T)"
  have "(2::rat) powi k = 2 powi (T + (k - T))" by simp
  also have "\<dots> = 2 powi T * 2 powi (k - T)" by (rule powi_two_add)
  also have "(2::rat) powi (k - T) = 2 ^ j" using Tk by (simp add: powi_two_nat j_def)
  finally have pk: "(2::rat) powi k = 2 powi T * 2 ^ j" .
  have q: "x / 2 powi T = of_int (m * 2 ^ j)"
    using powi_two_pos [of T] by (simp add: x pk)
  have "fl x = of_int (round_half_even (x / 2 powi T)) * 2 powi T"
    using x0 by (simp add: fl_def T_def Let_def)
  also have "\<dots> = of_int (m * 2 ^ j) * 2 powi T"
    by (simp only: q round_half_even_of_int)
  also have "\<dots> = x" by (simp add: x pk)
  finally show ?thesis .
qed

lemma fl_of_int: "\<bar>m\<bar> < 2 ^ 53 \<Longrightarrow> fl (of_int m) = of_int m"
  using fl_exact [of "of_int m" m 0] by simp

lemma fl_half_int: "\<bar>m\<bar> < 2 ^ 53 \<Longrightarrow> fl (of_int m / 2) = of_int m / 2"
  using fl_exact [of "of_int m / 2" m "-1"] by (simp add: power_int_minus)

text \<open>A number rounds to the float that is less than half a spacing away.\<close>

lemma fl_near:
  assumes y0: "y \<noteq> 0"
    and x: "x = of_int n * 2 powi (max (ilog2 y - 52) (- 1074))"
    and d: "\<bar>x - y\<bar> < 2 powi (max (ilog2 y - 52) (- 1074)) / 2"
  shows "fl y = x"
proof -
  define q :: rat where "q = 2 powi (max (ilog2 y - 52) (- 1074))"
  have qp: "0 < q" by (simp add: q_def powi_two_pos)
  have "y / q - of_int n = (y - x) / q" using qp by (simp add: x q_def field_simps)
  then have "\<bar>y / q - of_int n\<bar> = \<bar>x - y\<bar> / q"
    using qp by (simp add: abs_minus_commute)
  also have "\<dots> < 1 / 2" using d qp by (simp add: q_def [symmetric] field_simps)
  finally have "round_half_even (y / q) = n" by (rule round_half_even_near)
  then show ?thesis using y0 by (simp add: fl_def Let_def q_def [symmetric] x)
qed

text \<open>
  The product of an integer \<open>s\<close> with a constant \<open>u\<close> that lies within a relative
  \<open>2 powi (-54)\<close> of the half-integer \<open>N / 2\<close> rounds to \<open>N * s / 2\<close>, as long as the
  product stays below \<open>2 ^ 52\<close>: then \<open>N * s / 2\<close> is a float and the error is less than half
  the spacing of the floats around it.
\<close>

lemma fl_scaled:
  fixes u :: rat and s N :: int
  assumes s0: "s \<noteq> 0"
    and u1: "1 \<le> u"
    and bound: "of_int \<bar>s\<bar> * u < 2 ^ 52"
    and err: "\<bar>of_int N / 2 - u\<bar> * 2 ^ 54 \<le> u"
  shows "fl (of_int s * u) = of_int (N * s) / 2"
proof -
  define y where "y = of_int s * u"
  define a :: rat where "a = of_int \<bar>s\<bar>"
  define e where "e = ilog2 y"
  have a1: "1 \<le> a" using s0 by (simp add: a_def)
  have up: "0 < u" using u1 by simp
  have ay: "\<bar>y\<bar> = a * u" using up by (simp add: y_def a_def abs_mult)
  have "1 * 1 \<le> a * u" using a1 u1 by (intro mult_mono) simp_all
  then have y1: "1 \<le> \<bar>y\<bar>" using ay by simp
  then have y0: "y \<noteq> 0" by auto
  from ilog2_bounds [OF y0] have lo: "2 powi e \<le> \<bar>y\<bar>" and hi: "\<bar>y\<bar> < 2 powi (e + 1)"
    by (simp_all add: e_def)
  have "(2::rat) powi 0 < 2 powi (e + 1)" using y1 hi by simp
  then have e0: "0 \<le> e" using powi_two_less_imp [of 0 "e + 1"] by simp
  have "(2::rat) powi e < 2 powi 52" using lo bound ay by (simp add: a_def)
  then have e51: "e \<le> 51" using powi_two_less_imp [of e 52] by simp
  have T: "max (ilog2 y - 52) (- 1074) = e - 52" using e0 by (simp add: e_def)
  define j where "j = nat (51 - e)"
  have "(2::rat) powi (- 1) = 2 powi ((e - 52) + (51 - e))" by simp
  also have "\<dots> = 2 powi (e - 52) * 2 powi (51 - e)" by (rule powi_two_add)
  also have "(2::rat) powi (51 - e) = 2 ^ j" using e51 by (simp add: powi_two_nat j_def)
  finally have half: "(1::rat) / 2 = 2 powi (e - 52) * 2 ^ j"
    by (simp add: power_int_minus)
  have x: "(of_int (N * s) / 2 :: rat) =
      of_int (N * s * 2 ^ j) * 2 powi (max (ilog2 y - 52) (- 1074))"
  proof -
    have "(of_int (N * s) / 2 :: rat) = of_int (N * s) * (1 / 2)" by simp
    also have "\<dots> = of_int (N * s) * (2 powi (e - 52) * 2 ^ j)" by (simp only: half)
    also have "\<dots> = of_int (N * s * 2 ^ j) * 2 powi (e - 52)" by simp
    finally show ?thesis by (simp only: T)
  qed
  have "(2::rat) powi (e + 1) = 2 powi e * 2" using powi_two_add [of e 1] by simp
  with hi have pe: "a * u < 2 powi e * 2" using ay by simp
  have "(2::rat) powi e = 2 powi ((e - 52) + 52)" by simp
  also have "\<dots> = 2 powi (e - 52) * 2 powi 52" by (rule powi_two_add)
  finally have pe52: "(2::rat) powi e = 2 powi (e - 52) * 2 ^ 52" by simp
  have "\<bar>(of_int (N * s) / 2 :: rat) - y\<bar> = a * \<bar>of_int N / 2 - u\<bar>"
  proof -
    have "(of_int (N * s) / 2 :: rat) - y = of_int s * (of_int N / 2 - u)"
      by (simp add: y_def algebra_simps)
    then show ?thesis by (simp add: abs_mult a_def)
  qed
  also have "\<dots> * 2 ^ 54 \<le> a * u"
  proof -
    have "a * \<bar>of_int N / 2 - u\<bar> * 2 ^ 54 = a * (\<bar>of_int N / 2 - u\<bar> * 2 ^ 54)" by simp
    also have "\<dots> \<le> a * u" using err a1 by (intro mult_left_mono) simp_all
    finally show ?thesis .
  qed
  finally have "\<bar>of_int (N * s) / 2 - y\<bar> * 2 ^ 54 < 2 powi (e - 52) * 2 ^ 52 * 2"
    using pe pe52 by simp
  then have d: "\<bar>of_int (N * s) / 2 - y\<bar> < 2 powi (max (ilog2 y - 52) (- 1074)) / 2"
    by (simp add: T)
  show ?thesis unfolding y_def [symmetric] by (rule fl_near [OF y0 x d])
qed

section \<open>The price in floats and in exact arithmetic\<close>

text \<open>The constants of \<open>calc_amount\<close> as floats.\<close>

lemma fl_one: "fl 1 = 1"
  using fl_of_int [of 1] by simp

lemma fl_per_day: "fl (of_int BASE_PRICE_30 / 30) = 5 / 2"
  using fl_half_int [of 5] by (simp add: BASE_PRICE_30_def)

lemma fl_near_at:
  assumes lo: "2 powi e \<le> \<bar>y\<bar>" and hi: "\<bar>y\<bar> < 2 powi (e + 1)" and e: "- 1022 \<le> e"
    and x: "x = of_int n * 2 powi (e - 52)"
    and d: "\<bar>x - y\<bar> * 2 < 2 powi (e - 52)"
  shows "fl y = x"
proof -
  have il: "ilog2 y = e" using lo hi by (rule ilog2_unique)
  have T: "max (ilog2 y - 52) (- 1074) = e - 52" using e by (simp add: il)
  have "0 < \<bar>y\<bar>" using lo powi_two_pos [of e] by (rule less_le_trans [rotated])
  then have y0: "y \<noteq> 0" by simp
  show ?thesis
    by (rule fl_near [OF y0]) (use x d in \<open>simp_all add: T\<close>)
qed

lemma fl_twentieth: "fl (5 / 100) = 3602879701896397 / 2 ^ 56"
proof -
  have "fl (5 / 100) = 7205759403792794 / 2 ^ 57"
    by (rule fl_near_at [where n = 7205759403792794 and e = "- 5"])
      (simp_all add: power_int_minus)
  then show ?thesis by simp
qed

lemma fl_tenth: "fl (10 / 100) = 3602879701896397 / 2 ^ 55"
proof -
  have "fl (10 / 100) = 7205759403792794 / 2 ^ 56"
    by (rule fl_near_at [where n = 7205759403792794 and e = "- 4"])
      (simp_all add: power_int_minus)
  then show ?thesis by simp
qed

lemma fl_c95: "fl (1 - 3602879701896397 / 2 ^ 56) = 8556839292003942 / 2 ^ 53"
  by (rule fl_near_at [where n = 8556839292003942 and e = "- 1"])
    (simp_all add: power_int_minus)

lemma fl_c90: "fl (1 - 3602879701896397 / 2 ^ 55) = 8106479329266893 / 2 ^ 53"
  by (rule fl_near_at [where n = 8106479329266893 and e = "- 1"])
    (simp_all add: power_int_minus)

lemma overflow_small: "\<bar>r\<bar> \<le> 2 ^ 60 \<Longrightarrow> overflow r = Finite r"
proof -
  assume a: "\<bar>r\<bar> \<le> 2 ^ 60"
  have "(2::rat) ^ 60 < 2 ^ 1024" by simp
  then have "\<bar>r\<bar> < 2 ^ 1024" using a by (rule le_less_trans [rotated])
  then show ?thesis by (auto simp add: overflow_def)
qed

lemma float_of_int_small:
  assumes "\<bar>n\<bar> \<le> 2 ^ 50"
  shows "float_of_int n = Inr (Finite (of_int n))"
proof -
  have "\<bar>n\<bar> < 2 ^ 53" using assms by simp
  then have f: "fl (of_int n) = of_int n" by (rule fl_of_int)
  have "(of_int \<bar>n\<bar> :: rat) \<le> of_int (2 ^ 50)" using assms by (simp only: of_int_le_iff)
  then have "\<bar>of_int n :: rat\<bar> \<le> 2 ^ 50" by simp
  moreover have "(2::rat) ^ 50 < 2 ^ 1024" by simp
  ultimately have "\<bar>of_int n :: rat\<bar> < 2 ^ 1024" by (rule le_less_trans)
  then show ?thesis by (simp add: float_of_int_def f Let_def)
qed

lemma abs_bound_rat:
  fixes m :: int
  assumes "\<bar>m\<bar> \<le> b"
  shows "\<bar>of_int m :: rat\<bar> \<le> of_int b"
proof -
  have "(of_int \<bar>m\<bar> :: rat) \<le> of_int b" using assms by (simp only: of_int_le_iff)
  then show ?thesis by simp
qed

lemma fmul_half_int:
  assumes "\<bar>m\<bar> \<le> 2 ^ 53 - 1" "a * b = of_int m / 2"
  shows "fmul (Finite a) (Finite b) = Finite (of_int m / 2)"
proof -
  have "\<bar>m\<bar> < 2 ^ 53" using assms(1) by simp
  then have f: "fl (of_int m / 2) = of_int m / 2" by (rule fl_half_int)
  have "\<bar>of_int m :: rat\<bar> \<le> of_int (2 ^ 53 - 1)" using assms(1) by (rule abs_bound_rat)
  then have "\<bar>of_int m / 2 :: rat\<bar> \<le> 2 ^ 60" by simp
  then have "overflow (of_int m / 2) = Finite (of_int m / 2)" by (rule overflow_small)
  then show ?thesis by (simp add: assms(2) f)
qed

lemma subtotal_exact:
  assumes d: "\<bar>days\<bar> \<le> 2 ^ 50" and s: "\<bar>seats\<bar> \<le> 2 ^ 50" and p: "\<bar>days * seats\<bar> \<le> 2 ^ 50"
  shows "fmul_int (Finite (5 / 2)) days = Inr (Finite (of_int (5 * days) / 2))"
    and "fmul_int (Finite (of_int (5 * days) / 2)) seats = Inr (Finite (of_int (5 * days * seats) / 2))"
proof -
  have "\<bar>5 * days\<bar> \<le> 2 ^ 53 - 1" using d by (simp add: abs_mult)
  then have "fmul (Finite (5 / 2)) (Finite (of_int days)) = Finite (of_int (5 * days) / 2)"
    by (rule fmul_half_int) simp
  then show "fmul_int (Finite (5 / 2)) days = Inr (Finite (of_int (5 * days) / 2))"
    by (simp add: fmul_int_def float_of_int_small [OF d])
  have "\<bar>5 * days * seats\<bar> = 5 * \<bar>days * seats\<bar>" by (simp add: abs_mult)
  then have "\<bar>5 * days * seats\<bar> \<le> 2 ^ 53 - 1" using p by simp
  then have "fmul (Finite (of_int (5 * days) / 2)) (Finite (of_int seats)) =
      Finite (of_int (5 * days * seats) / 2)"
    by (rule fmul_half_int) simp
  then show "fmul_int (Finite (of_int (5 * days) / 2)) seats =
      Inr (Finite (of_int (5 * days * seats) / 2))"
    by (simp add: fmul_int_def float_of_int_small [OF s])
qed

lemma discounted_product:
  fixes u :: rat and s N :: int
  assumes u1: "1 \<le> u" and u2: "u \<le> of_int k" and k: "60 * k \<le> 143 * c" "0 < c"
    and bound: "\<bar>c * s\<bar> \<le> 2 ^ 50"
    and err: "\<bar>of_int N / 2 - u\<bar> * 2 ^ 54 \<le> u"
    and N: "\<bar>N\<bar> \<le> 512"
  shows "py_round (overflow (fl (of_int s * u))) = Inr (round_half_even (of_int (N * s) / 2))"
proof (cases "s = 0")
  case True
  then show ?thesis by (simp add: fl_zero overflow_def)
next
  case False
  have "\<bar>c * s\<bar> = c * \<bar>s\<bar>" using k(2) by (simp add: abs_mult)
  then have cs: "c * \<bar>s\<bar> \<le> 1125899906842624" using bound by simp
  have "(60 * k) * \<bar>s\<bar> \<le> (143 * c) * \<bar>s\<bar>" using k(1) by (rule mult_right_mono) simp
  then have "60 * (k * \<bar>s\<bar>) \<le> 143 * (c * \<bar>s\<bar>)" by (simp only: mult.assoc)
  then have "60 * (k * \<bar>s\<bar>) \<le> 143 * 1125899906842624" using cs by linarith
  then have ks: "k * \<bar>s\<bar> < 4503599627370496" by linarith
  have "of_int \<bar>s\<bar> * u \<le> of_int \<bar>s\<bar> * of_int k"
    using u2 by (intro mult_left_mono) simp_all
  also have "\<dots> = of_int (k * \<bar>s\<bar>)" by simp
  also have "\<dots> < of_int 4503599627370496" using ks by (simp only: of_int_less_iff)
  finally have b: "of_int \<bar>s\<bar> * u < 2 ^ 52" by simp
  have f: "fl (of_int s * u) = of_int (N * s) / 2"
    by (rule fl_scaled [OF False u1 b err])
  have "\<bar>s\<bar> \<le> c * \<bar>s\<bar>" using k(2) by (simp add: mult_le_cancel_right1)
  then have "\<bar>s\<bar> \<le> 2 ^ 50" using cs by simp
  then have a: "\<bar>of_int s :: rat\<bar> \<le> of_int (2 ^ 50)" by (rule abs_bound_rat)
  have "\<bar>of_int N :: rat\<bar> \<le> of_int 512" using N by (rule abs_bound_rat)
  then have "\<bar>of_int N :: rat\<bar> * \<bar>of_int s\<bar> \<le> 512 * 2 ^ 50"
    using a by (intro mult_mono) simp_all
  then have "\<bar>of_int (N * s) / 2 :: rat\<bar> \<le> 2 ^ 60" by (simp add: abs_mult)
  then have "overflow (of_int (N * s) / 2) = Finite (of_int (N * s) / 2)" by (rule overflow_small)
  then show ?thesis by (simp add: f)
qed

lemma calc_amount_unfold:
  assumes "fmul_int (Finite (5 / 2)) days = Inr pd" "fmul_int pd seats = Inr subtotal"
    "(case DISCOUNT_BY_DAYS days of None \<Rightarrow> Finite (fl 0) | Some x \<Rightarrow> x) = disc"
    "fsub (Finite (fl 1)) disc = factor"
  shows "calc_amount days seats = py_round (fmul subtotal factor)"
  unfolding calc_amount_def Let_def fl_per_day assms sum.case ..

lemma discount_60: "(case DISCOUNT_BY_DAYS 60 of None \<Rightarrow> Finite (fl 0) | Some x \<Rightarrow> x) = Finite (fl (5 / 100))"
  unfolding DISCOUNT_BY_DAYS_def by simp

lemma discount_90: "(case DISCOUNT_BY_DAYS 90 of None \<Rightarrow> Finite (fl 0) | Some x \<Rightarrow> x) = Finite (fl (10 / 100))"
  unfolding DISCOUNT_BY_DAYS_def by simp

lemma discount_other:
  "days \<noteq> 60 \<Longrightarrow> days \<noteq> 90 \<Longrightarrow>
   (case DISCOUNT_BY_DAYS days of None \<Rightarrow> Finite (fl 0) | Some x \<Rightarrow> x) = Finite (fl 0)"
  unfolding DISCOUNT_BY_DAYS_def by simp

lemma factor_60: "fsub (Finite (fl 1)) (Finite (fl (5 / 100))) = Finite (8556839292003942 / 2 ^ 53)"
  unfolding fl_one fl_twentieth fsub.simps fl_c95 by (rule overflow_small) simp

lemma factor_90: "fsub (Finite (fl 1)) (Finite (fl (10 / 100))) = Finite (8106479329266893 / 2 ^ 53)"
  unfolding fl_one fl_tenth fsub.simps fl_c90 by (rule overflow_small) simp

lemma factor_other: "fsub (Finite (fl 1)) (Finite (fl 0)) = Finite 1"
  unfolding fl_one fl_zero fsub.simps diff_zero by (rule overflow_small) simp

text \<open>
  On amounts that floats hold exactly, \<open>calc_amount\<close> returns the price of the
  specification.
\<close>

lemma calc_amount_exact:
  assumes d: "\<bar>days\<bar> \<le> 2 ^ 50" and s: "\<bar>seats\<bar> \<le> 2 ^ 50" and p: "\<bar>days * seats\<bar> \<le> 2 ^ 50"
  shows "calc_amount days seats = Inr (price_spec days seats)"
proof -
  note sub = subtotal_exact [OF d s p]
  consider (d60) "days = 60" | (d90) "days = 90" | (other) "days \<noteq> 60" "days \<noteq> 90" by blast
  then show ?thesis
  proof cases
    case d60
    have sb: "\<bar>60 * seats\<bar> \<le> 2 ^ 50" using p d60 by simp
    have r: "py_round (overflow (fl (of_int seats * (150 * (8556839292003942 / 2 ^ 53))))) =
        Inr (round_half_even (of_int (285 * seats) / 2))"
      by (rule discounted_product [where k = 143 and c = 60, OF _ _ _ _ sb]) simp_all
    have e: "(of_int (5 * 60 * seats) / 2 :: rat) * (8556839292003942 / 2 ^ 53) =
        of_int seats * (150 * (8556839292003942 / 2 ^ 53))" by simp
    have "calc_amount 60 seats =
        py_round (fmul (Finite (of_int (5 * 60 * seats) / 2)) (Finite (8556839292003942 / 2 ^ 53)))"
      by (rule calc_amount_unfold [OF sub [unfolded d60] discount_60 factor_60])
    also have "\<dots> = Inr (round_half_even (of_int (285 * seats) / 2))"
      unfolding fmul.simps e by (rule r)
    finally have "calc_amount 60 seats = Inr (round_half_even (of_int (285 * seats) / 2))" .
    moreover have "price_spec 60 seats = round_half_even (of_int (285 * seats) / 2)"
      by (simp add: price_spec_def discount_def)
    ultimately show ?thesis using d60 by simp
  next
    case d90
    have sb: "\<bar>90 * seats\<bar> \<le> 2 ^ 50" using p d90 by simp
    have r: "py_round (overflow (fl (of_int seats * (225 * (8106479329266893 / 2 ^ 53))))) =
        Inr (round_half_even (of_int (405 * seats) / 2))"
      by (rule discounted_product [where k = 203 and c = 90, OF _ _ _ _ sb]) simp_all
    have e: "(of_int (5 * 90 * seats) / 2 :: rat) * (8106479329266893 / 2 ^ 53) =
        of_int seats * (225 * (8106479329266893 / 2 ^ 53))" by simp
    have "calc_amount 90 seats =
        py_round (fmul (Finite (of_int (5 * 90 * seats) / 2)) (Finite (8106479329266893 / 2 ^ 53)))"
      by (rule calc_amount_unfold [OF sub [unfolded d90] discount_90 factor_90])
    also have "\<dots> = Inr (round_half_even (of_int (405 * seats) / 2))"
      unfolding fmul.simps e by (rule r)
    finally have "calc_amount 90 seats = Inr (round_half_even (of_int (405 * seats) / 2))" .
    moreover have "price_spec 90 seats = round_half_even (of_int (405 * seats) / 2)"
      by (simp add: price_spec_def discount_def)
    ultimately show ?thesis using d90 by simp
  next
    case other
    have "\<bar>5 * days * seats\<bar> = 5 * \<bar>days * seats\<bar>" by (simp add: abs_mult)
    then have "\<bar>5 * days * seats\<bar> \<le> 2 ^ 53 - 1" using p by simp
    then have m: "fmul (Finite (of_int (5 * days * seats) / 2)) (Finite 1) =
        Finite (of_int (5 * days * seats) / 2)"
      by (rule fmul_half_int) simp
    have "calc_amount days seats =
        py_round (fmul (Finite (of_int (5 * days * seats) / 2)) (Finite 1))"
      by (rule calc_amount_unfold [OF sub discount_other [OF other] factor_other])
    also have "\<dots> = Inr (round_half_even (of_int (5 * days * seats) / 2))"
      unfolding m by simp
    finally have "calc_amount days seats = Inr (round_half_even (of_int (5 * days * seats) / 2))" .
    moreover have "price_spec days seats = round_half_even (of_int (5 * days * seats) / 2)"
      using other by (simp add: price_spec_def discount_def)
    ultimately show ?thesis by simp
  qed
qed

lemma calc_amount_raises:
  assumes "fmul_int (Finite (5 / 2)) days = Inr pd" "fmul_int pd seats = Inl e"
  shows "calc_amount days seats = Inl e"
  unfolding calc_amount_def Let_def fl_per_day assms sum.case ..

lemma round_half_even_half:
  "round_half_even (of_int m / 2) =
     (if even m then m div 2 else if even (m div 2) then m div 2 else m div 2 + 1)"
proof -
  have f: "\<lfloor>(of_int m :: rat) / 2\<rfloor> = m div 2"
    using floor_divide_of_int_eq [of m 2, where ?'a = rat] by simp
  have m: "m = 2 * (m div 2) + m mod 2" by simp
  have "(of_int m :: rat) = of_int (2 * (m div 2) + m mod 2)" by (simp only: m [symmetric])
  also have "\<dots> = 2 * of_int (m div 2) + of_int (m mod 2)"
    by (simp only: of_int_add of_int_mult of_int_numeral)
  finally have d: "(of_int m :: rat) / 2 - of_int (m div 2) = of_int (m mod 2) / 2"
    by (simp add: field_simps)
  show ?thesis
  proof (cases "even m")
    case True
    then have "m mod 2 = 0" by presburger
    then show ?thesis using True d by (simp add: round_half_even_def Let_def f)
  next
    case False
    then have "m mod 2 = 1" by presburger
    then show ?thesis using False d by (simp add: round_half_even_def Let_def f)
  qed
qed

lemma price_spec_values:
  "price_spec 30 1 = 75" "price_spec 60 1 = 142" "price_spec 90 1 = 202" "price_spec 60 3 = 428"
  "price_spec 1 18014398509481985 = 45035996273704962"
  using round_half_even_half [of 150] round_half_even_half [of 285] round_half_even_half [of 405]
    round_half_even_half [of 855] round_half_even_half [of 90071992547409925]
  by (simp_all add: price_spec_def discount_def)

text \<open>
  Beyond 53 bits the conversion of \<open>seats\<close> to float rounds: \<open>2 ^ 54 + 1\<close> becomes \<open>2 ^ 54\<close>.
\<close>

lemma float_of_big_seats: "float_of_int 18014398509481985 = Inr (Finite (2 ^ 54))"
proof -
  have "fl 18014398509481985 = 2 ^ 54"
    by (rule fl_near_at [where n = "2 ^ 52" and e = 54]) simp_all
  then show ?thesis by (simp add: float_of_int_def Let_def)
qed

lemma calc_amount_big_seats: "calc_amount 1 18014398509481985 = Inr 45035996273704960"
proof -
  have one: "\<bar>1::int\<bar> \<le> 2 ^ 50" "\<bar>1 * 1 :: int\<bar> \<le> 2 ^ 50" by simp_all
  have pd: "fmul_int (Finite (5 / 2)) 1 = Inr (Finite (of_int (5 * 1) / 2))"
    by (rule subtotal_exact(1) [OF one(1) one(1) one(2)])
  have ex: "fl (5 * 2 ^ 53) = 5 * 2 ^ 53"
    using fl_exact [of "5 * 2 ^ 53" 5 53] by simp
  have sub: "fmul_int (Finite (of_int (5 * 1) / 2)) 18014398509481985 = Inr (Finite (5 * 2 ^ 53))"
    unfolding fmul_int_def float_of_big_seats sum.case fmul.simps
    using ex by (simp add: overflow_def)
  have "calc_amount 1 18014398509481985 = py_round (fmul (Finite (5 * 2 ^ 53)) (Finite 1))"
    by (rule calc_amount_unfold [OF pd sub discount_other factor_other]) simp_all
  also have "\<dots> = Inr 45035996273704960"
    using ex by (simp add: overflow_def round_half_even_def)
  finally show ?thesis .
qed

text \<open>An integer of \<open>2 ^ 1024\<close> or more has no float.\<close>

lemma float_of_huge: "float_of_int (2 ^ 1024) = Inl OverflowError"
proof -
  have "fl (of_int (2 ^ 1024)) = of_int (2 ^ 1024)"
    using fl_exact [of "of_int (2 ^ 1024)" 1 1024] by simp
  then show ?thesis unfolding float_of_int_def Let_def by simp
qed

lemma zero_days_first: "fmul_int (Finite (5 / 2)) 0 = Inr (Finite 0)"
proof -
  have z: "\<bar>0::int\<bar> \<le> 2 ^ 50" "\<bar>0 * 0 :: int\<bar> \<le> 2 ^ 50" by simp_all
  show ?thesis using subtotal_exact(1) [OF z(1) z(1) z(2)] by simp
qed

lemma calc_amount_huge_seats: "calc_amount 0 (2 ^ 1024) = Inl OverflowError"
proof -
  have "fmul_int (Finite 0) (2 ^ 1024) = Inl OverflowError"
    unfolding fmul_int_def float_of_huge by simp
  with zero_days_first show ?thesis by (rule calc_amount_raises)
qed

text \<open>With \<open>days = 0\<close> the price is 0 for every \<open>seats\<close> that has a float.\<close>

lemma round_half_even_abs_le:
  assumes "\<bar>z\<bar> \<le> of_int M"
  shows "\<bar>round_half_even z\<bar> \<le> M"
proof -
  have up: "round_half_even z \<le> M"
  proof (cases "z = of_int M")
    case True
    then show ?thesis by (simp add: round_half_even_of_int)
  next
    case False
    then have "z < of_int M" using assms by simp
    then have "\<lfloor>z\<rfloor> < M" by (simp add: floor_less_iff)
    moreover have "round_half_even z \<le> \<lfloor>z\<rfloor> + 1" by (simp add: round_half_even_def Let_def)
    ultimately show ?thesis by simp
  qed
  have "of_int (- M) \<le> z" using assms by simp
  then have "- M \<le> \<lfloor>z\<rfloor>" by (simp only: le_floor_iff)
  moreover have "\<lfloor>z\<rfloor> \<le> round_half_even z" by (simp add: round_half_even_def Let_def)
  ultimately show ?thesis using up by simp
qed

lemma fl_int_bound:
  assumes n0: "n \<noteq> 0" and n: "\<bar>n\<bar> < 2 ^ 1023"
  shows "\<bar>fl (of_int n)\<bar> < 2 ^ 1024"
proof -
  define x :: rat where "x = of_int n"
  define e where "e = ilog2 x"
  have x0: "x \<noteq> 0" using n0 by (simp add: x_def)
  have x1: "1 \<le> \<bar>x\<bar>" using n0 by (simp add: x_def)
  from ilog2_bounds [OF x0] have lo: "2 powi e \<le> \<bar>x\<bar>" and hi: "\<bar>x\<bar> < 2 powi (e + 1)"
    by (simp_all add: e_def)
  have "(2::rat) powi 0 < 2 powi (e + 1)" using x1 hi by simp
  then have e0: "0 \<le> e" using powi_two_less_imp [of 0 "e + 1"] by simp
  have "(of_int \<bar>n\<bar> :: rat) < of_int (2 ^ 1023)" using n by (simp only: of_int_less_iff)
  then have "\<bar>x\<bar> < 2 powi 1023" by (simp add: x_def)
  with lo have "(2::rat) powi e < 2 powi 1023" by simp
  then have e1: "e < 1023" by (rule powi_two_less_imp)
  have T: "max (ilog2 x - 52) (- 1074) = e - 52" using e0 by (simp add: e_def)
  define q :: rat where "q = 2 powi (e - 52)"
  have qp: "0 < q" by (simp add: q_def powi_two_pos)
  have "e + 1 = (e - 52) + 53" by simp
  then have "(2::rat) powi (e + 1) = 2 powi ((e - 52) + 53)" by (simp only:)
  also have "\<dots> = q * 2 powi 53" unfolding q_def by (rule powi_two_add)
  finally have p53: "(2::rat) powi (e + 1) = q * 2 ^ 53" by simp
  have "\<bar>x / q\<bar> = \<bar>x\<bar> / q" using qp by simp
  also have "\<dots> \<le> 2 ^ 53"
  proof -
    have "\<bar>x\<bar> < q * 2 ^ 53" using hi by (simp only: p53)
    then show ?thesis using qp by (simp add: field_simps)
  qed
  finally have "\<bar>x / q\<bar> \<le> of_int (2 ^ 53)" by simp
  then have "\<bar>round_half_even (x / q)\<bar> \<le> 2 ^ 53" by (rule round_half_even_abs_le)
  then have "(of_int \<bar>round_half_even (x / q)\<bar> :: rat) \<le> of_int (2 ^ 53)"
    by (simp only: of_int_le_iff)
  then have r: "\<bar>of_int (round_half_even (x / q)) :: rat\<bar> \<le> 2 ^ 53" by simp
  have "fl x = of_int (round_half_even (x / q)) * q"
    using x0 by (simp add: fl_def Let_def T q_def)
  then have "\<bar>fl x\<bar> = \<bar>of_int (round_half_even (x / q)) :: rat\<bar> * q"
    using qp by (simp add: abs_mult)
  also have "\<dots> \<le> 2 ^ 53 * q" using r qp by (simp only: mult_le_cancel_right_pos)
  also have "\<dots> = 2 powi (e + 1)" by (simp add: p53)
  also have "\<dots> \<le> 2 powi 1023" using e1 by (intro powi_two_mono) simp
  also have "\<dots> < 2 ^ 1024" by simp
  finally show ?thesis by (simp add: x_def)
qed

lemma calc_amount_zero_days:
  assumes "\<bar>n\<bar> < 2 ^ 1023"
  shows "calc_amount 0 n = Inr 0"
proof -
  have "\<bar>fl (of_int n)\<bar> < 2 ^ 1024"
  proof (cases "n = 0")
    case True
    then show ?thesis by (simp add: fl_zero)
  next
    case False
    then show ?thesis using assms by (rule fl_int_bound)
  qed
  then have f: "float_of_int n = Inr (Finite (fl (of_int n)))"
    by (simp add: float_of_int_def Let_def)
  have sub: "fmul_int (Finite 0) n = Inr (Finite 0)"
    unfolding fmul_int_def f by (simp add: fl_zero overflow_def)
  have "calc_amount 0 n = py_round (fmul (Finite 0) (Finite 1))"
    by (rule calc_amount_unfold [OF zero_days_first sub discount_other factor_other]) simp_all
  also have "\<dots> = Inr 0" by (simp add: fl_zero overflow_def round_half_even_def)
  finally show ?thesis .
qed

text \<open>
  C7 (as amended). For \<open>days\<close> and \<open>seats\<close> with \<open>\<bar>days\<bar>\<close>, \<open>\<bar>seats\<bar>\<close> and \<open>\<bar>days * seats\<bar>\<close> at most
  \<open>2 ^ 50\<close>, \<open>calc_amount\<close> returns \<open>round((75/30) * days * seats * (1 - discount))\<close> in exact
  arithmetic with ties to even, the discount being 0%, 5%, 10% for 30, 60, 90 days and
  0% otherwise; so the prices of (30, 1), (60, 1), (90, 1) are 75, 142, 202; and the
  price of \<open>(0, n)\<close> is 0 for every \<open>n\<close> with \<open>\<bar>n\<bar> < 2 ^ 1023\<close>. The result is a function of
  \<open>days\<close> and \<open>seats\<close> alone.
\<close>

theorem calc_amount_price:
  "(\<bar>days\<bar> \<le> 2 ^ 50 \<and> \<bar>seats\<bar> \<le> 2 ^ 50 \<and> \<bar>days * seats\<bar> \<le> 2 ^ 50 \<longrightarrow>
      calc_amount days seats = Inr (price_spec days seats)) \<and>
   calc_amount 30 1 = Inr 75 \<and> calc_amount 60 1 = Inr 142 \<and> calc_amount 90 1 = Inr 202 \<and>
   (\<bar>n\<bar> < 2 ^ 1023 \<longrightarrow> calc_amount 0 n = Inr 0)"
proof -
  have "calc_amount 30 1 = Inr (price_spec 30 1)" by (rule calc_amount_exact) simp_all
  moreover have "calc_amount 60 1 = Inr (price_spec 60 1)" by (rule calc_amount_exact) simp_all
  moreover have "calc_amount 90 1 = Inr (price_spec 90 1)" by (rule calc_amount_exact) simp_all
  ultimately show ?thesis
    using calc_amount_exact [of days seats] calc_amount_zero_days [of n]
    by (simp add: price_spec_values)
qed

theorem calc_amount_price_witness:
  "\<bar>60 :: int\<bar> \<le> 2 ^ 50 \<and> \<bar>3 :: int\<bar> \<le> 2 ^ 50 \<and> \<bar>60 * 3 :: int\<bar> \<le> 2 ^ 50 \<and>
   calc_amount 60 3 = Inr 428 \<and> \<bar>7 :: int\<bar> < 2 ^ 1023 \<and> calc_amount 0 7 = Inr 0"
  using calc_amount_price [of 60 3 7] by (simp add: price_spec_values)

text \<open>
  The claim as it is stated, for every \<open>days\<close> and \<open>seats\<close>, does not hold. With \<open>days = 0\<close>
  and \<open>seats = 2 ^ 1024\<close> the conversion of \<open>seats\<close> to float raises \<open>OverflowError\<close>, so the
  price is not 0; and with \<open>days = 1\<close>, \<open>seats = 2 ^ 54 + 1\<close> the float result
  45035996273704960 is not the exactly rounded 45035996273704962.
\<close>

theorem calc_amount_large_counterexample:
  "calc_amount 0 (2 ^ 1024) = Inl OverflowError \<and>
   calc_amount 1 18014398509481985 = Inr 45035996273704960 \<and>
   price_spec 1 18014398509481985 = 45035996273704962"
  by (intro conjI) (rule calc_amount_huge_seats calc_amount_big_seats price_spec_values(5))+

section \<open>Balance operations\<close>

text \<open>
  On an integer balance, with a result of 64 bits, the store's \<open>MAX(0, old) + ?\<close> and
  \<open>MAX(0, old) - ?\<close> are the integers \<open>max 0 old + d\<close> and \<open>max 0 old - d\<close>.
\<close>

lemma sql_add_integer:
  "int64 (max 0 old + d) \<Longrightarrow> sql_add (clamped (Integer old)) d = Integer (max 0 old + d)"
  by simp

lemma sql_sub_integer:
  "int64 (max 0 old - d) \<Longrightarrow> sql_sub (clamped (Integer old)) d = Integer (max 0 old - d)"
  by simp

text \<open>
  The result can only leave the 64 bits upwards, and is a REAL of \<open>2 ^ 63\<close> or more then.
  The greatest 64-bit integer becomes the float \<open>2 ^ 63\<close>, and so does \<open>2 ^ 63 + 5\<close>.
\<close>

lemma to_real_greatest: "to_real (2 ^ 63 - 1) = Finite (2 ^ 63)"
proof -
  have "fl (2 ^ 63 - 1) = 2 ^ 63"
    by (rule fl_near_at [where n = "2 ^ 53" and e = 62]) simp_all
  then show ?thesis by (simp add: to_real_def)
qed

lemma to_real_five: "to_real 5 = Finite 5"
  using fl_of_int [of 5] by (simp add: to_real_def)

lemma fadd_five_greatest: "fadd (Finite 5) (Finite (2 ^ 63)) = Finite (2 ^ 63)"
proof -
  have "fl (5 + 2 ^ 63) = 2 ^ 63"
    by (rule fl_near_at [where n = "2 ^ 52" and e = 63]) simp_all
  then show ?thesis by (simp add: overflow_def)
qed

lemma sql_add_overflow: "sql_add (clamped (Integer 5)) (2 ^ 63 - 1) = Real (Finite (2 ^ 63))"
proof -
  have "sql_add (clamped (Integer 5)) (2 ^ 63 - 1) =
      integer_affinity (fadd (to_real 5) (to_real (2 ^ 63 - 1)))"
    by (simp add: int64_def)
  also have "\<dots> = integer_affinity (Finite (2 ^ 63))"
    by (simp only: to_real_five to_real_greatest fadd_five_greatest)
  also have "\<dots> = Real (Finite (2 ^ 63))" by simp
  finally show ?thesis .
qed

lemma to_real_zero: "to_real 0 = Finite 0"
  by (simp add: to_real_def fl_zero)

lemma to_real_least: "to_real (- (2 ^ 63)) = Finite (- (2 ^ 63))"
proof -
  have "fl (- (2 ^ 63)) = - (2 ^ 63)"
    using fl_exact [of "- (2 ^ 63)" "- 1" 63] by simp
  then show ?thesis by (simp add: to_real_def)
qed

lemma fsub_zero_least: "fsub (Finite 0) (Finite (- (2 ^ 63))) = Finite (2 ^ 63)"
proof -
  have "fl (2 ^ 63) = 2 ^ 63"
    using fl_exact [of "2 ^ 63" 1 63] by simp
  then show ?thesis by (simp add: overflow_def)
qed

lemma sql_sub_overflow: "sql_sub (clamped (Integer 0)) (- (2 ^ 63)) = Real (Finite (2 ^ 63))"
proof -
  have "sql_sub (clamped (Integer 0)) (- (2 ^ 63)) =
      integer_affinity (fsub (to_real 0) (to_real (- (2 ^ 63))))"
    by (simp add: int64_def)
  also have "\<dots> = integer_affinity (Finite (2 ^ 63))"
    by (simp only: to_real_zero to_real_least fsub_zero_least)
  also have "\<dots> = Real (Finite (2 ^ 63))" by simp
  finally show ?thesis .
qed

text \<open>A parameter of more than 64 bits is refused before the statement runs.\<close>

lemma add_days_unbound:
  "\<not> int64 delta \<Longrightarrow> add_days s uid delta = Inl OverflowError"
  by (simp add: add_days_def)

lemma sub_days_unbound:
  "\<not> int64 delta \<Longrightarrow> sub_days s uid delta = Inl OverflowError"
  by (simp add: sub_days_def)

text \<open>A user without a row: \<open>UPDATE\<close> matches nothing and the store stays as it is.\<close>

lemma add_days_absent:
  "users s uid = None \<Longrightarrow> int64 uid \<Longrightarrow> int64 delta \<Longrightarrow> add_days s uid delta = Inr s"
  by (simp add: add_days_def update_user_def)

lemma sub_days_absent:
  "users s uid = None \<Longrightarrow> int64 uid \<Longrightarrow> int64 delta \<Longrightarrow> sub_days s uid delta = Inr s"
  by (simp add: sub_days_def update_user_def)

text \<open>
  C4 (as amended). For an existing user whose balance \<open>old\<close> is an integer, and a
  \<open>delta\<close> of 64 bits, \<open>add_days\<close> stores \<open>max 0 old + delta\<close> when that has 64 bits, and
  \<open>sub_days\<close> stores \<open>max 0 old - delta\<close> when that has 64 bits, with no floor on the
  result, and nothing else in the store changes: from a balance of -5, adding 10 gives
  10 (the balance is raised to 0 first), and from a balance of 2, subtracting 3 gives
  -1. (The key of an existing user has 64 bits.)
\<close>

theorem add_sub_days_clamp:
  "users s uid = Some u \<Longrightarrow> days_left u = Integer old \<Longrightarrow> int64 uid \<Longrightarrow> int64 delta \<Longrightarrow>
     (int64 (max 0 old + delta) \<longrightarrow>
        add_days s uid delta =
          Inr (s\<lparr>users := (users s)(uid \<mapsto> u\<lparr>days_left := Integer (max 0 old + delta)\<rparr>)\<rparr>)) \<and>
     (int64 (max 0 old - delta) \<longrightarrow>
        sub_days s uid delta =
          Inr (s\<lparr>users := (users s)(uid \<mapsto> u\<lparr>days_left := Integer (max 0 old - delta)\<rparr>)\<rparr>)) \<and>
     (old = -5 \<longrightarrow>
        add_days s uid 10 = Inr (s\<lparr>users := (users s)(uid \<mapsto> u\<lparr>days_left := Integer 10\<rparr>)\<rparr>)) \<and>
     (old = 2 \<longrightarrow>
        sub_days s uid 3 = Inr (s\<lparr>users := (users s)(uid \<mapsto> u\<lparr>days_left := Integer (-1)\<rparr>)\<rparr>))"
  by (simp add: add_days_def sub_days_def update_user_def int64_def)

theorem add_sub_days_clamp_witness:
  "users (one_user_store 7 (sample_user (-5) 0)) 7 = Some (sample_user (-5) 0) \<and>
   days_left (sample_user (-5) 0) = Integer (-5) \<and>
   int64 7 \<and> int64 10 \<and> int64 (max 0 (-5) + 10) \<and>
   add_days (one_user_store 7 (sample_user (-5) 0)) 7 10 =
     Inr (one_user_store 7 (sample_user 10 0)) \<and>
   users (one_user_store 7 (sample_user 2 0)) 7 = Some (sample_user 2 0) \<and>
   days_left (sample_user 2 0) = Integer 2 \<and>
   int64 3 \<and> int64 (max 0 2 - 3) \<and>
   sub_days (one_user_store 7 (sample_user 2 0)) 7 3 =
     Inr (one_user_store 7 (sample_user (-1) 0))"
  using add_sub_days_clamp [of "one_user_store 7 (sample_user (-5) 0)" 7 "sample_user (-5) 0"
      "-5" 10]
    add_sub_days_clamp [of "one_user_store 7 (sample_user 2 0)" 7 "sample_user 2 0" 2 3]
  by (simp add: one_user_store_def sample_user_def int64_def)

text \<open>
  The claim as it is stated does not hold. Its example, -5 plus 10 giving 5, is not what
  the rule gives: the balance is raised to 0 before the delta is added, so the result
  is 10. And the rule does not hold for every delta: from a balance of 5, adding
  \<open>2 ^ 63 - 1\<close> stores the REAL \<open>2 ^ 63\<close> and not the integer \<open>2 ^ 63 + 4\<close>; from a balance
  of 0, subtracting \<open>- (2 ^ 63)\<close> stores the REAL \<open>2 ^ 63\<close>; and from a balance of 3,
  subtracting \<open>2 ^ 63\<close> raises \<open>OverflowError\<close> and writes nothing.
\<close>

theorem add_sub_days_counterexample:
  "add_days (one_user_store 7 (sample_user (-5) 0)) 7 10 \<noteq>
     Inr (one_user_store 7 (sample_user 5 0)) \<and>
   add_days (one_user_store 7 (sample_user 5 0)) 7 (2 ^ 63 - 1) =
     Inr (one_user_store 7 ((sample_user 5 0)\<lparr>days_left := Real (Finite (2 ^ 63))\<rparr>)) \<and>
   sub_days (one_user_store 7 (sample_user 0 0)) 7 (- (2 ^ 63)) =
     Inr (one_user_store 7 ((sample_user 0 0)\<lparr>days_left := Real (Finite (2 ^ 63))\<rparr>)) \<and>
   sub_days (one_user_store 7 (sample_user 3 0)) 7 (2 ^ 63) = Inl OverflowError"
proof (intro conjI)
  have "users (one_user_store 7 (sample_user 10 0)) 7 \<noteq>
      users (one_user_store 7 (sample_user 5 0)) 7"
    by (simp add: one_user_store_def sample_user_def)
  then have "one_user_store 7 (sample_user 10 0) \<noteq> one_user_store 7 (sample_user 5 0)"
    by auto
  moreover have "add_days (one_user_store 7 (sample_user (-5) 0)) 7 10 =
      Inr (one_user_store 7 (sample_user 10 0))"
    by (simp add: add_days_def update_user_def one_user_store_def sample_user_def int64_def)
  ultimately show "add_days (one_user_store 7 (sample_user (-5) 0)) 7 10 \<noteq>
     Inr (one_user_store 7 (sample_user 5 0))"
    by simp
  have r: "int64 (2 ^ 63 - 1)" "int64 7" "int64 (- (2 ^ 63))" by (simp_all add: int64_def)
  show "add_days (one_user_store 7 (sample_user 5 0)) 7 (2 ^ 63 - 1) =
     Inr (one_user_store 7 ((sample_user 5 0)\<lparr>days_left := Real (Finite (2 ^ 63))\<rparr>))"
    using sql_add_overflow
    by (simp only: add_days_def r update_user_def one_user_store_def sample_user_def)
      simp
  show "sub_days (one_user_store 7 (sample_user 0 0)) 7 (- (2 ^ 63)) =
     Inr (one_user_store 7 ((sample_user 0 0)\<lparr>days_left := Real (Finite (2 ^ 63))\<rparr>))"
    using sql_sub_overflow
    by (simp only: sub_days_def r update_user_def one_user_store_def sample_user_def)
      simp
  show "sub_days (one_user_store 7 (sample_user 3 0)) 7 (2 ^ 63) = Inl OverflowError"
    by (rule sub_days_unbound) (simp add: int64_def)
qed

section \<open>The signature check\<close>

text \<open>A digest has 32 bytes, so its hexadecimal form has 64 ASCII characters.\<close>

lemma be_bytes_range: "list_all (\<lambda>b. 0 \<le> b \<and> b < 256) (be_bytes n x)"
  by (simp add: be_bytes_def list_all_iff)

lemma sha256_range: "list_all (\<lambda>b. 0 \<le> b \<and> b < 256) (sha256 m)"
  using be_bytes_range by (auto simp add: sha256_def Let_def list_all_iff)

lemma hmac_sha256_range: "list_all (\<lambda>b. 0 \<le> b \<and> b < 256) (hmac_sha256 key msg)"
  by (simp add: hmac_sha256_def Let_def sha256_range)

lemma length_compress: "length st = 8 \<Longrightarrow> length (compress st blk) = 8"
  by (simp add: compress_def st_list_def split: prod.split)

lemma length_blocks: "length st = 8 \<Longrightarrow> length (blocks n st m) = 8"
  by (induction n arbitrary: st m) (simp_all add: length_compress)

lemma length_be_bytes: "length (be_bytes n x) = n"
  by (simp add: be_bytes_def)

lemma length_concat_const:
  "(\<And>x. x \<in> set xs \<Longrightarrow> length (f x) = k) \<Longrightarrow> length (concat (map f xs)) = k * length xs"
  by (induction xs) simp_all

lemma length_sha256: "length (sha256 m) = 32"
proof -
  have "length (blocks (length (pad m) div 64) sha_h0 (pad m)) = 8"
    by (rule length_blocks) (simp add: sha_h0_def)
  then show ?thesis
    by (simp add: sha256_def Let_def length_concat_const [where k = 4] length_be_bytes)
qed

lemma length_hmac_sha256: "length (hmac_sha256 key msg) = 32"
  by (simp add: hmac_sha256_def Let_def length_sha256)

lemma length_hexdigest: "length (hexdigest bs) = 2 * length bs"
  by (simp add: hexdigest_def length_concat_const [where k = 2])

lemma hex_digit_ascii: "0 \<le> d \<Longrightarrow> d < 16 \<Longrightarrow> hex_digit d < 128"
  by (simp add: hex_digit_def)

lemma is_ascii_hexdigest:
  assumes "list_all (\<lambda>b. 0 \<le> b \<and> b < 256) bs"
  shows "is_ascii (hexdigest bs)"
proof -
  have "hex_digit (b div 16) < 128 \<and> hex_digit (b mod 16) < 128" if "b \<in> set bs" for b
  proof -
    from that assms have "0 \<le> b" "b < 256" by (auto simp add: list_all_iff)
    then have "0 \<le> b div 16" "b div 16 < 16" by simp_all
    then show ?thesis by (simp add: hex_digit_ascii)
  qed
  then show ?thesis by (auto simp add: is_ascii_def hexdigest_def list_all_iff)
qed

lemma calc_hash_ascii: "is_ascii (calc_hash token msg)"
  unfolding calc_hash_def by (rule is_ascii_hexdigest) (rule hmac_sha256_range)

lemma calc_hash_length: "length (calc_hash token msg) = 64"
  by (simp add: calc_hash_def length_hexdigest length_hmac_sha256)

lemma calc_hash_nonempty: "calc_hash token msg \<noteq> []"
  using calc_hash_length [of token msg] by auto

text \<open>
  What \<open>verify_init_data\<close> does once the payload has a non-empty \<open>hash\<close> and both
  encodings succeed: lines 163-166.
\<close>

lemma verify_after_hash:
  assumes "init_data \<noteq> []"
    and "map_of (dict_of (parse_qsl init_data)) (str ''hash'') = Some h" "h \<noteq> []"
    and "encode BOT_TOKEN = Inr token"
    and "encode (data_check_string (AList.delete (str ''hash'') (dict_of (parse_qsl init_data)))) = Inr msg"
  shows "verify_init_data json_loads BOT_TOKEN init_data =
     (case compare_digest (calc_hash token msg) h of
        Inl e \<Rightarrow> Inl e
      | Inr same \<Rightarrow>
          if \<not> same then Inl (HTTPException 401 (str ''bad signature''))
          else json_loads
                 (case map_of (AList.delete (str ''hash'') (dict_of (parse_qsl init_data))) (str ''user'') of
                    None \<Rightarrow> str ''{}''
                  | Some u \<Rightarrow> if u = [] then str ''{}'' else u))"
  using assms by (simp add: verify_init_data_def Let_def calc_hash_def)

lemma str_hash_neq_user: "str ''hash'' \<noteq> str ''user''"
  by (simp add: str_def)

text \<open>
  A payload with a signature that matches returns what \<open>json.loads\<close> gives for its
  \<open>user\<close> field, or for \<open>{}\<close> when the field is missing or empty.
\<close>

lemma verify_signed:
  assumes ne: "init_data \<noteq> []"
    and h: "map_of (dict_of (parse_qsl init_data)) (str ''hash'') = Some h"
    and tok: "encode BOT_TOKEN = Inr token"
    and msg: "encode (data_check_string (AList.delete (str ''hash'') (dict_of (parse_qsl init_data)))) = Inr msg"
    and sig: "h = calc_hash token msg"
  shows "verify_init_data json_loads BOT_TOKEN init_data =
     json_loads (case map_of (dict_of (parse_qsl init_data)) (str ''user'') of
                   None \<Rightarrow> str ''{}''
                 | Some u \<Rightarrow> if u = [] then str ''{}'' else u)"
proof -
  have h0: "h \<noteq> []" using sig calc_hash_nonempty by simp
  have c: "compare_digest (calc_hash token msg) h = Inr True"
    using sig calc_hash_ascii by (simp add: compare_digest_def)
  have u: "map_of (AList.delete (str ''hash'') (dict_of (parse_qsl init_data))) (str ''user'') =
      map_of (dict_of (parse_qsl init_data)) (str ''user'')"
    using str_hash_neq_user by (simp add: delete_conv')
  show ?thesis
    unfolding verify_after_hash [OF ne h h0 tok msg] c u by simp
qed

text \<open>A payload that differs in one character of the hash is refused.\<close>

lemma verify_changed_hash:
  assumes h: "map_of (dict_of (parse_qsl init_data)) (str ''hash'') = Some h"
    and tok: "encode BOT_TOKEN = Inr token"
    and msg: "encode (data_check_string (AList.delete (str ''hash'') (dict_of (parse_qsl init_data)))) = Inr msg"
    and sig: "h = calc_hash token msg"
    and i: "i < length h" and c: "c \<noteq> h ! i"
    and d': "dict_of (parse_qsl init_data') =
        AList.update (str ''hash'') (h[i := c]) (dict_of (parse_qsl init_data))"
  shows "isl (verify_init_data json_loads BOT_TOKEN init_data')"
proof (cases "init_data' = []")
  case True
  then show ?thesis by (simp add: verify_init_data_def)
next
  case False
  have h': "map_of (dict_of (parse_qsl init_data')) (str ''hash'') = Some (h[i := c])"
    by (simp add: d' update_conv')
  have del: "AList.delete (str ''hash'') (dict_of (parse_qsl init_data')) =
      AList.delete (str ''hash'') (dict_of (parse_qsl init_data))"
    by (simp add: d' delete_update_same)
  have ne: "h[i := c] \<noteq> []" using i by auto
  have "(h[i := c]) ! i \<noteq> h ! i" using i c by simp
  then have diff: "calc_hash token msg \<noteq> h[i := c]" using sig by metis
  have "verify_init_data json_loads BOT_TOKEN init_data' =
     (case compare_digest (calc_hash token msg) (h[i := c]) of
        Inl e \<Rightarrow> Inl e
      | Inr same \<Rightarrow>
          if \<not> same then Inl (HTTPException 401 (str ''bad signature''))
          else json_loads
                 (case map_of (AList.delete (str ''hash'') (dict_of (parse_qsl init_data'))) (str ''user'') of
                    None \<Rightarrow> str ''{}''
                  | Some u \<Rightarrow> if u = [] then str ''{}'' else u))"
    by (rule verify_after_hash [OF False h' ne tok]) (simp add: del msg)
  then show ?thesis using diff by (simp add: compare_digest_def)
qed

text \<open>A hash with a character outside ASCII makes \<open>compare_digest\<close> raise.\<close>

lemma verify_non_ascii_hash:
  assumes "init_data \<noteq> []"
    and "map_of (dict_of (parse_qsl init_data)) (str ''hash'') = Some h" "h \<noteq> []"
    and "encode BOT_TOKEN = Inr token"
    and "encode (data_check_string (AList.delete (str ''hash'') (dict_of (parse_qsl init_data)))) = Inr msg"
    and "\<not> is_ascii h"
  shows "verify_init_data json_loads BOT_TOKEN init_data = Inl TypeError"
  unfolding verify_after_hash [OF assms(1-5)] using assms(6) by (simp add: compare_digest_def)

text \<open>
  When nothing but the signature is wrong, the result is the 401 error: the hash is
  ASCII and differs from the computed one.
\<close>

lemma verify_bad_signature:
  assumes "init_data \<noteq> []"
    and "map_of (dict_of (parse_qsl init_data)) (str ''hash'') = Some h" "h \<noteq> []"
    and "encode BOT_TOKEN = Inr token"
    and "encode (data_check_string (AList.delete (str ''hash'') (dict_of (parse_qsl init_data)))) = Inr msg"
    and "is_ascii h" "h \<noteq> calc_hash token msg"
  shows "verify_init_data json_loads BOT_TOKEN init_data =
     Inl (HTTPException 401 (str ''bad signature''))"
  unfolding verify_after_hash [OF assms(1-5)] using assms(6,7) calc_hash_ascii [of token msg]
  by (auto simp add: compare_digest_def)

lemma verify_no_payload:
  "verify_init_data json_loads BOT_TOKEN [] = Inl (HTTPException 401 (str ''no initData''))"
  by (simp add: verify_init_data_def)

lemma verify_no_hash:
  assumes "init_data \<noteq> []"
    and "map_of (dict_of (parse_qsl init_data)) (str ''hash'') = None \<or>
         map_of (dict_of (parse_qsl init_data)) (str ''hash'') = Some []"
  shows "verify_init_data json_loads BOT_TOKEN init_data = Inl (HTTPException 401 (str ''no hash''))"
  using assms by (auto simp add: verify_init_data_def Let_def)

section \<open>The sample payloads\<close>

lemma sample_dict:
  "dict_of (parse_qsl sample_init_data) =
     [(str ''user'', sample_user_text), (str ''auth_date'', str ''1''), (str ''hash'', sample_hash)]"
  by code_simp

lemma tampered_dict:
  "dict_of (parse_qsl tampered_init_data) =
     AList.update (str ''hash'') (sample_hash[63 := 52]) (dict_of (parse_qsl sample_init_data))"
  by code_simp

lemma nouser_dict:
  "dict_of (parse_qsl nouser_init_data) = [(str ''auth_date'', str ''1''), (str ''hash'', nouser_hash)]"
  by code_simp

lemma sample_token_bytes: "encode sample_token = Inr sample_token"
  by code_simp

lemma sample_msg_bytes:
  "encode (data_check_string (AList.delete (str ''hash'') (dict_of (parse_qsl sample_init_data)))) =
     Inr sample_msg"
  by code_simp

lemma nouser_msg_bytes:
  "encode (data_check_string (AList.delete (str ''hash'') (dict_of (parse_qsl nouser_init_data)))) =
     Inr (str ''auth_date=1'')"
  by code_simp

lemma sample_secret_key: "hmac_sha256 (str ''WebAppData'') sample_token = sample_secret"
  by code_simp

lemma sample_digest: "hexdigest (hmac_sha256 sample_secret sample_msg) = sample_hash"
  by code_simp

lemma nouser_digest: "hexdigest (hmac_sha256 sample_secret (str ''auth_date=1'')) = nouser_hash"
  by code_simp

lemma sample_signature: "sample_hash = calc_hash sample_token sample_msg"
  by (simp only: calc_hash_def sample_secret_key sample_digest)

lemma nouser_signature: "nouser_hash = calc_hash sample_token (str ''auth_date=1'')"
  by (simp only: calc_hash_def sample_secret_key nouser_digest)

lemma sample_nonempty:
  "sample_init_data \<noteq> []" "tampered_init_data \<noteq> []" "nouser_init_data \<noteq> []"
  "sample_user_text \<noteq> []"
  by (simp_all add: sample_init_data_def tampered_init_data_def nouser_init_data_def
      sample_user_text_def str_def)

lemma sample_fields:
  "map_of (dict_of (parse_qsl sample_init_data)) (str ''hash'') = Some sample_hash"
  "map_of (dict_of (parse_qsl sample_init_data)) (str ''user'') = Some sample_user_text"
  "map_of (dict_of (parse_qsl nouser_init_data)) (str ''hash'') = Some nouser_hash"
  "map_of (dict_of (parse_qsl nouser_init_data)) (str ''user'') = None"
  by (simp_all add: sample_dict nouser_dict str_def)

lemma sample_hash_last: "63 < length sample_hash" "52 \<noteq> sample_hash ! 63"
  by (simp_all add: sample_hash_def str_def)

lemma json_loads_sample_values:
  "json_loads_sample sample_user_text = Inr (JObject [(str ''id'', JInt 42)])"
  "json_loads_sample (str ''{}'') = Inr (JObject [])"
  by (simp_all add: json_loads_sample_def sample_user_text_def str_def)

section \<open>What a signed payload returns\<close>

text \<open>
  C1. Let the payload parse to fields whose \<open>hash\<close> is the hexadecimal HMAC-SHA256 of
  the sorted \<open>key=value\<close> check string of the other fields, under the key that is the
  HMAC-SHA256 of the bot token with the key \<open>WebAppData\<close>, and let it have a \<open>user\<close>
  field. Then \<open>verify_init_data\<close> returns what \<open>json.loads\<close> gives for the \<open>user\<close> field; and
  every payload that parses to the same fields but for one changed character of \<open>hash\<close>
  fails.
\<close>

theorem verify_signed_payload:
  assumes "init_data \<noteq> []"
    and "map_of (dict_of (parse_qsl init_data)) (str ''hash'') = Some h"
    and "encode BOT_TOKEN = Inr token"
    and "encode (data_check_string (AList.delete (str ''hash'') (dict_of (parse_qsl init_data)))) =
         Inr msg"
    and "h = calc_hash token msg"
    and "map_of (dict_of (parse_qsl init_data)) (str ''user'') = Some u" and "u \<noteq> []"
  shows "verify_init_data json_loads BOT_TOKEN init_data = json_loads u \<and>
     (\<forall>init_data' i c.
        i < length h \<and> c \<noteq> h ! i \<and>
        dict_of (parse_qsl init_data') =
          AList.update (str ''hash'') (h[i := c]) (dict_of (parse_qsl init_data)) \<longrightarrow>
        (\<exists>e. verify_init_data json_loads BOT_TOKEN init_data' = Inl e))"
proof (intro conjI allI impI)
  show "verify_init_data json_loads BOT_TOKEN init_data = json_loads u"
    unfolding verify_signed [OF assms(1-5)] using assms(6,7) by simp
next
  fix init_data' i c
  assume a: "i < length h \<and> c \<noteq> h ! i \<and>
        dict_of (parse_qsl init_data') =
          AList.update (str ''hash'') (h[i := c]) (dict_of (parse_qsl init_data))"
  then have "isl (verify_init_data json_loads BOT_TOKEN init_data')"
    using verify_changed_hash [OF assms(2-5), of i c init_data' json_loads] by blast
  then show "\<exists>e. verify_init_data json_loads BOT_TOKEN init_data' = Inl e"
    by (cases "verify_init_data json_loads BOT_TOKEN init_data'") simp_all
qed

theorem verify_signed_payload_witness:
  "verify_init_data json_loads_sample sample_token sample_init_data =
     Inr (JObject [(str ''id'', JInt 42)]) \<and>
   (\<exists>e. verify_init_data json_loads_sample sample_token tampered_init_data = Inl e)"
proof -
  note t = verify_signed_payload [OF sample_nonempty(1) sample_fields(1) sample_token_bytes
      sample_msg_bytes sample_signature sample_fields(2) sample_nonempty(4),
      of json_loads_sample]
  from t have "verify_init_data json_loads_sample sample_token sample_init_data =
      json_loads_sample sample_user_text" by (rule conjunct1)
  moreover from t have "\<exists>e. verify_init_data json_loads_sample sample_token tampered_init_data = Inl e"
    using sample_hash_last tampered_dict by blast
  ultimately show ?thesis by (simp add: json_loads_sample_values)
qed

section \<open>A hash outside ASCII\<close>

text \<open>
  C2. The claim has \<open>verify_init_data\<close> raise the 401 error whenever the computed
  signature differs from the received \<open>hash\<close>. For the payload \<open>hash=%C3%A9\<close> the received
  hash is the one character U+00E9, which no computed signature equals, and the result
  is the \<open>TypeError\<close> of \<open>hmac.compare_digest\<close>, not the 401 error.
\<close>

theorem verify_non_ascii_hash_type_error:
  "parse_qsl (str ''hash=%C3%A9'') = [(str ''hash'', [233])] \<and>
   (\<forall>token msg. calc_hash token msg \<noteq> [233]) \<and>
   verify_init_data json_loads (str ''PASTE_YOUR_TOKEN_HERE'') (str ''hash=%C3%A9'') = Inl TypeError"
proof -
  have p: "parse_qsl (str ''hash=%C3%A9'') = [(str ''hash'', [233])]"
    by code_simp
  have d: "dict_of (parse_qsl (str ''hash=%C3%A9'')) = [(str ''hash'', [233])]"
    by code_simp
  have ne: "str ''hash=%C3%A9'' \<noteq> []"
    by (simp add: str_def)
  have h: "map_of (dict_of (parse_qsl (str ''hash=%C3%A9''))) (str ''hash'') = Some [233]"
    by (simp add: d)
  have tok: "encode (str ''PASTE_YOUR_TOKEN_HERE'') = Inr (str ''PASTE_YOUR_TOKEN_HERE'')"
    by code_simp
  have msg: "encode (data_check_string
      (AList.delete (str ''hash'') (dict_of (parse_qsl (str ''hash=%C3%A9''))))) = Inr []"
    by code_simp
  have "verify_init_data json_loads (str ''PASTE_YOUR_TOKEN_HERE'') (str ''hash=%C3%A9'') =
      Inl TypeError"
    by (rule verify_non_ascii_hash [OF ne h _ tok msg]) (simp_all add: is_ascii_def)
  moreover have "calc_hash token msg \<noteq> [233]" for token msg
    using calc_hash_length [of token msg] by auto
  ultimately show ?thesis using p by simp
qed

section \<open>A signed payload without a user\<close>

text \<open>
  C9. A payload whose signature matches and that has no \<open>user\<close> field, or an empty one,
  is accepted: \<open>verify_init_data\<close> returns what \<open>json.loads\<close> gives for \<open>{}\<close>, the empty
  object, which has no \<open>id\<close>; the read \<open>u["id"]\<close> of the routes then raises \<open>KeyError\<close>.
\<close>

theorem verify_without_user:
  assumes "init_data \<noteq> []"
    and "map_of (dict_of (parse_qsl init_data)) (str ''hash'') = Some h"
    and "encode BOT_TOKEN = Inr token"
    and "encode (data_check_string (AList.delete (str ''hash'') (dict_of (parse_qsl init_data)))) =
         Inr msg"
    and "h = calc_hash token msg"
    and "map_of (dict_of (parse_qsl init_data)) (str ''user'') = None \<or>
         map_of (dict_of (parse_qsl init_data)) (str ''user'') = Some []"
    and "json_loads (str ''{}'') = Inr (JObject [])"
  shows "verify_init_data json_loads BOT_TOKEN init_data = Inr (JObject []) \<and>
     map_of ([] :: (pystr \<times> json) list) (str ''id'') = None \<and>
     read_id json_loads BOT_TOKEN init_data = Inl (KeyError (str ''id''))"
proof -
  have v: "verify_init_data json_loads BOT_TOKEN init_data = Inr (JObject [])"
    unfolding verify_signed [OF assms(1-5)] using assms(6,7) by auto
  then show ?thesis by (simp add: read_id_def getitem_def)
qed

theorem verify_without_user_witness:
  "verify_init_data json_loads_sample sample_token nouser_init_data = Inr (JObject []) \<and>
   read_id json_loads_sample sample_token nouser_init_data = Inl (KeyError (str ''id''))"
proof -
  have d: "map_of (dict_of (parse_qsl nouser_init_data)) (str ''user'') = None \<or>
      map_of (dict_of (parse_qsl nouser_init_data)) (str ''user'') = Some []"
    using sample_fields(4) by simp
  show ?thesis
    using verify_without_user [where json_loads = json_loads_sample,
        OF sample_nonempty(3) sample_fields(3) sample_token_bytes
        nouser_msg_bytes nouser_signature d json_loads_sample_values(2)]
    by simp
qed

end
